theory Spec2Isabelle
  imports Complex_Main
begin

section \<open>Python values used by \<open>file_operations.py\<close>\<close>

text \<open>
  Paths are Python \<open>str\<close> values, modelled as \<open>string\<close>.  The exceptions that
  the modelled code can raise are values of the type \<open>error\<close>; a fallible pure function
  returns \<open>error + 'a\<close> with \<open>Inl\<close> for the raised exception.
\<close>

datatype error =
    IndexError
  | ValueError
  | KeyError string
  | FileNotFoundError
  | NotADirectoryError
  | IsADirectoryError
  | PermissionError
  | OtherException string
  | SystemExit string

text \<open>\<open>except OSError\<close> catches the operating-system errors, \<open>except Exception\<close>
  everything but \<open>SystemExit\<close> (a \<open>BaseException\<close>).\<close>

fun is_OSError :: "error \<Rightarrow> bool" where
  "is_OSError FileNotFoundError = True"
| "is_OSError NotADirectoryError = True"
| "is_OSError IsADirectoryError = True"
| "is_OSError PermissionError = True"
| "is_OSError _ = False"

fun is_Exception :: "error \<Rightarrow> bool" where
  "is_Exception (SystemExit _) = False"
| "is_Exception _ = True"

subsection \<open>\<open>str\<close> methods\<close>

definition startswith :: "string \<Rightarrow> string \<Rightarrow> bool" where
  "startswith s pre = (take (length pre) s = pre)"

definition endswith :: "string \<Rightarrow> string \<Rightarrow> bool" where
  "endswith s suf = (length suf \<le> length s \<and> drop (length s - length suf) s = suf)"

text \<open>\<open>sub in s\<close>: \<open>sub\<close> occurs in \<open>s\<close> as a contiguous substring.\<close>

fun str_contains :: "string \<Rightarrow> string \<Rightarrow> bool" where
  "str_contains [] sub = (sub = [])"
| "str_contains (c # cs) sub = (startswith (c # cs) sub \<or> str_contains cs sub)"

text \<open>
  \<open>s.replace(old, new, count)\<close>: the first \<open>count\<close> non-overlapping occurrences of
  \<open>old\<close>, found left to right, are replaced; a negative \<open>count\<close> (the default is
  \<open>-1\<close>) replaces all of them.  An empty \<open>old\<close> matches before every character and at
  the end.
\<close>

function str_replace :: "string \<Rightarrow> string \<Rightarrow> string \<Rightarrow> int \<Rightarrow> string" where
  "str_replace [] old new count = (if count = 0 then [] else if old = [] then new else [])"
| "str_replace (c # cs) old new count =
     (if count = 0 then c # cs
      else if old = [] then new @ c # str_replace cs old new (count - 1)
      else if startswith (c # cs) old
        then new @ str_replace (drop (length old) (c # cs)) old new (count - 1)
      else c # str_replace cs old new count)"
  by pat_completeness auto
termination
  by (relation "measure (\<lambda>(s, old, new, count). length s)") auto

text \<open>\<open>s.split(sep)\<close> for a one-character separator, and \<open>sep.join(parts)\<close>.\<close>

fun str_split :: "char \<Rightarrow> string \<Rightarrow> string list" where
  "str_split sep [] = [[]]"
| "str_split sep (c # cs) =
     (if c = sep then [] # str_split sep cs
      else (c # hd (str_split sep cs)) # tl (str_split sep cs))"

fun str_join :: "string \<Rightarrow> string list \<Rightarrow> string" where
  "str_join sep [] = []"
| "str_join sep [x] = x"
| "str_join sep (x # y # ys) = x @ sep @ str_join sep (y # ys)"

definition rstrip :: "char \<Rightarrow> string \<Rightarrow> string" where
  "rstrip ch s = rev (dropWhile (\<lambda>c. c = ch) (rev s))"

subsection \<open>\<open>posixpath\<close>\<close>

text \<open>
  The functions of \<open>os.path\<close> that the program calls, as \<open>posixpath\<close> defines them
  (the program's tier paths \<open>/mnt/user/\<close>, \<open>/mnt/user0/\<close> are POSIX paths).
  \<open>path_split p\<close> cuts \<open>p\<close> after its last slash; the head loses its trailing slashes
  unless it consists of slashes only.
\<close>

definition path_split :: "string \<Rightarrow> string \<times> string" where
  "path_split p =
     (let tail = rev (takeWhile (\<lambda>c. c \<noteq> CHR ''/'') (rev p));
          head = rev (dropWhile (\<lambda>c. c \<noteq> CHR ''/'') (rev p))
      in (if head \<noteq> [] \<and> head \<noteq> replicate (length head) CHR ''/''
          then rstrip CHR ''/'' head else head, tail))"

definition dirname :: "string \<Rightarrow> string" where
  "dirname p = fst (path_split p)"

definition basename :: "string \<Rightarrow> string" where
  "basename p = snd (path_split p)"

text \<open>\<open>os.path.join(a, *ps)\<close>: an absolute component discards what precedes it.\<close>

fun path_join :: "string \<Rightarrow> string list \<Rightarrow> string" where
  "path_join a [] = a"
| "path_join a (b # bs) =
     (if startswith b ''/'' then path_join b bs
      else if a = [] \<or> endswith a ''/'' then path_join (a @ b) bs
      else path_join (a @ ''/'' @ b) bs)"

text \<open>
  \<open>os.path.splitext(p)\<close>: the extension starts at the last dot of the last component,
  unless only dots precede it there.
\<close>

definition splitext :: "string \<Rightarrow> string \<times> string" where
  "splitext p =
     (let name = rev (takeWhile (\<lambda>c. c \<noteq> CHR ''/'') (rev p));
          ext = rev (takeWhile (\<lambda>c. c \<noteq> CHR ''.'') (rev name));
          stem = rev (dropWhile (\<lambda>c. c \<noteq> CHR ''.'') (rev name))
      in if stem = [] \<or> butlast stem = replicate (length (butlast stem)) CHR ''.''
         then (p, [])
         else (take (length p - length ext - 1) p, drop (length p - length ext - 1) p))"

text \<open>\<open>os.path.normpath\<close>: the loop over the components, then the function.\<close>

definition normpath_step :: "nat \<Rightarrow> string list \<Rightarrow> string \<Rightarrow> string list" where
  "normpath_step initial_slashes new_comps comp' =
     (if comp' = [] \<or> comp' = ''.'' then new_comps
      else if comp' \<noteq> ''..'' \<or> (initial_slashes = 0 \<and> new_comps = [])
              \<or> (new_comps \<noteq> [] \<and> last new_comps = ''..'')
        then new_comps @ [comp']
      else if new_comps \<noteq> [] then butlast new_comps
      else new_comps)"

definition normpath :: "string \<Rightarrow> string" where
  "normpath path =
     (if path = [] then ''.''
      else
        let initial_slashes =
              (if startswith path ''/''
               then (if startswith path ''//'' \<and> \<not> startswith path ''///'' then 2 else 1)
               else 0);
            comps = foldl (normpath_step initial_slashes) [] (str_split CHR ''/'' path);
            p = replicate initial_slashes CHR ''/'' @ str_join ''/'' comps
        in if p = [] then ''.'' else p)"

text \<open>\<open>os.path.abspath\<close> reads the working directory, a parameter here.\<close>

definition abspath :: "string \<Rightarrow> string \<Rightarrow> string" where
  "abspath cwd path =
     (if startswith path ''/'' then normpath path else normpath (path_join cwd [path]))"

fun commonprefix :: "string list \<Rightarrow> string list \<Rightarrow> string list" where
  "commonprefix (x # xs) (y # ys) = (if x = y then x # commonprefix xs ys else [])"
| "commonprefix _ _ = []"

definition relpath :: "string \<Rightarrow> string \<Rightarrow> string \<Rightarrow> error + string" where
  "relpath cwd path start =
     (if path = [] then Inl ValueError
      else
        let start_list = filter (\<lambda>x. x \<noteq> []) (str_split CHR ''/'' (abspath cwd start));
            path_list = filter (\<lambda>x. x \<noteq> []) (str_split CHR ''/'' (abspath cwd path));
            i = length (commonprefix start_list path_list);
            rel_list = replicate (length start_list - i) ''..'' @ drop i path_list
        in (case rel_list of [] \<Rightarrow> Inr ''.'' | r # rs \<Rightarrow> Inr (path_join r rs)))"

section \<open>The components of \<open>file_operations.py\<close>\<close>

subsection \<open>\<open>FilePathModifier\<close>\<close>

text \<open>
  The classes share the configured \<open>real_source\<close>; each class is a record that extends
  the common part with its own attributes.
\<close>

record source_paths =
  real_source :: string

record file_path_modifier = source_paths +
  plex_source :: string
  plex_library_folders :: "string list"
  nas_library_folders :: "string list"

text \<open>
  The inner loop of \<open>modify_file_paths\<close> over \<open>enumerate(self.plex_library_folders)\<close>:
  \<open>j\<close> is the index of \<open>folder\<close>, and \<open>self.nas_library_folders[j]\<close> raises
  \<open>IndexError\<close> when the second list is too short.  The substitution has no count
  argument.
\<close>

fun library_folder_loop :: "string list \<Rightarrow> nat \<Rightarrow> string list \<Rightarrow> string \<Rightarrow> error + string" where
  "library_folder_loop nas j [] file_path = Inr file_path"
| "library_folder_loop nas j (folder # rest) file_path =
     (if str_contains file_path folder
      then (if j < length nas then Inr (str_replace file_path folder (nas ! j) (- 1))
            else Inl IndexError)
      else library_folder_loop nas (Suc j) rest file_path)"

text \<open>The body of the outer loop: what becomes of one retained path.\<close>

definition modify_path :: "file_path_modifier \<Rightarrow> string \<Rightarrow> error + string" where
  "modify_path m file_path =
     library_folder_loop (nas_library_folders m) 0 (plex_library_folders m)
       (str_replace file_path (plex_source m) (real_source m) 1)"

text \<open>The outer loop \<open>for i, file_path in enumerate(files)\<close>, which stores each result
  back with \<open>files[i] = file_path\<close>.\<close>

function modify_loop :: "file_path_modifier \<Rightarrow> nat \<Rightarrow> string list \<Rightarrow> error + string list" where
  "modify_loop m i files =
     (if i < length files
      then (case modify_path m (files ! i) of
              Inl e \<Rightarrow> Inl e
            | Inr file_path \<Rightarrow> modify_loop m (Suc i) (files[i := file_path]))
      else Inr files)"
  by pat_completeness auto
termination
  by (relation "measure (\<lambda>(m, i, files). length files - i)") auto

declare modify_loop.simps [simp del]

text \<open>\<open>modify_file_paths\<close>; the argument \<open>None\<close> is Python's \<open>None\<close>.\<close>

definition modify_file_paths :: "file_path_modifier \<Rightarrow> string list option \<Rightarrow> error + string list" where
  "modify_file_paths m files =
     (case files of
        None \<Rightarrow> Inr []
      | Some fs \<Rightarrow>
          modify_loop m 0 (filter (\<lambda>file_path. startswith file_path (plex_source m)) fs))"

subsection \<open>The file system\<close>

text \<open>
  The file system maps a path, as the string the program passes to the operating system,
  to what is stored there.  A directory carries the entries \<open>os.scandir\<close> yields for it,
  in the order it yields them; a locked directory is one the process has no permission
  for, neither to list it nor to create a file in it.
  The listing is the one in effect when the program scans the directory: creating or
  removing a file does not update it, and no modelled function scans a directory after
  it has changed the file system.
  Two different strings are two different files: links, mount overlays and
  unnormalised spellings of one path are outside the model, and so are permissions on
  files, so that \<open>os.remove\<close> of a regular file always succeeds.
\<close>

record dir_entry =
  entry_name :: string
  entry_is_file :: bool

datatype node = RegularFile string | Directory "dir_entry list" | LockedDirectory

type_synonym filesystem = "string \<Rightarrow> node option"

definition isfile :: "filesystem \<Rightarrow> string \<Rightarrow> bool" where
  "isfile fs path = (case fs path of Some (RegularFile _) \<Rightarrow> True | _ \<Rightarrow> False)"

definition isdir :: "filesystem \<Rightarrow> string \<Rightarrow> bool" where
  "isdir fs path =
     (case fs path of Some (Directory _) \<Rightarrow> True | Some LockedDirectory \<Rightarrow> True | _ \<Rightarrow> False)"

definition scandir :: "filesystem \<Rightarrow> string \<Rightarrow> error + dir_entry list" where
  "scandir fs path =
     (case fs path of
        None \<Rightarrow> Inl FileNotFoundError
      | Some (RegularFile _) \<Rightarrow> Inl NotADirectoryError
      | Some (Directory entries) \<Rightarrow> Inr entries
      | Some LockedDirectory \<Rightarrow> Inl PermissionError)"

text \<open>A stateful call returns its result, or the exception it raised, together with
  the file system it leaves behind.\<close>

definition os_remove :: "string \<Rightarrow> filesystem \<Rightarrow> (error + unit) \<times> filesystem" where
  "os_remove path fs =
     (case fs path of
        None \<Rightarrow> (Inl FileNotFoundError, fs)
      | Some (RegularFile _) \<Rightarrow> (Inr (), fs(path := None))
      | Some _ \<Rightarrow> (Inl IsADirectoryError, fs))"

text \<open>
  \<open>with open(path, "w") as file\<close> followed by the writes that produce \<open>content\<close>:
  the file is created or truncated.  The call raises when \<open>path\<close> is empty or names a
  directory, and when the directory that is to hold the file is missing
  (\<open>FileNotFoundError\<close>), is a regular file (\<open>NotADirectoryError\<close>) or is locked
  (\<open>PermissionError\<close>).  That directory is the directory part of \<open>path\<close> without
  its final slashes; an empty directory part names the working directory, which exists.
  A path that ends in a slash names a directory.
\<close>

definition open_write :: "string \<Rightarrow> string \<Rightarrow> filesystem \<Rightarrow> (error + unit) \<times> filesystem" where
  "open_write path content fs =
     (if path = [] then (Inl FileNotFoundError, fs)
      else
        case fs path of
          Some (Directory _) \<Rightarrow> (Inl IsADirectoryError, fs)
        | Some LockedDirectory \<Rightarrow> (Inl IsADirectoryError, fs)
        | _ \<Rightarrow>
            let parent = dirname (rstrip CHR ''/'' path) in
            (case (if parent = [] then Some (Directory []) else fs parent) of
               None \<Rightarrow> (Inl FileNotFoundError, fs)
             | Some (RegularFile _) \<Rightarrow> (Inl NotADirectoryError, fs)
             | Some LockedDirectory \<Rightarrow> (Inl PermissionError, fs)
             | Some (Directory _) \<Rightarrow>
                 if basename path = [] then (Inl IsADirectoryError, fs)
                 else (Inr (), fs(path \<mapsto> RegularFile content))))"

text \<open>The condition under which \<open>open(path, "w")\<close> succeeds: the path has a file
  name, is not a directory, and its directory part is empty or an existing directory
  that is not locked.\<close>

definition can_create_file :: "filesystem \<Rightarrow> string \<Rightarrow> bool" where
  "can_create_file fs path =
     (basename path \<noteq> [] \<and> \<not> isdir fs path
      \<and> (dirname path = []
           \<or> (case fs (dirname path) of Some (Directory _) \<Rightarrow> True | _ \<Rightarrow> False)))"

subsection \<open>\<open>SubtitleFinder\<close>\<close>

definition default_subtitle_extensions :: "string list" where
  "default_subtitle_extensions = [''.srt'', ''.vtt'', ''.sbv'', ''.sub'', ''.idx'']"

text \<open>
  \<open>_find_subtitle_files\<close>.  The comprehension keeps an entry when
  \<open>entry.is_file() and entry.name.startswith(file_name) and entry.name != file and
  entry.name.endswith(tuple(self.subtitle_extensions))\<close>, where \<open>file\<close> is the
  function's argument, and yields \<open>entry.path\<close>.  Both handlers return the empty list.
\<close>

definition find_subtitle_files ::
  "string list \<Rightarrow> filesystem \<Rightarrow> string \<Rightarrow> string \<Rightarrow> error + string list" where
  "find_subtitle_files subtitle_extensions fs directory_path file =
     (let file_name = fst (splitext (basename file)) in
      case scandir fs directory_path of
        Inr entries \<Rightarrow>
          Inr (map (\<lambda>entry. path_join directory_path [entry_name entry])
                 (filter (\<lambda>entry. entry_is_file entry
                            \<and> startswith (entry_name entry) file_name
                            \<and> entry_name entry \<noteq> file
                            \<and> list_ex (endswith (entry_name entry)) subtitle_extensions)
                    entries))
      | Inl e \<Rightarrow>
          (if e = PermissionError then Inr []
           else if is_OSError e then Inr []
           else Inl e))"

subsection \<open>\<open>FileFilter\<close>\<close>

record tier_paths = source_paths +
  cache_dir :: string
  is_unraid :: bool

record file_filter = tier_paths +
  mover_cache_exclude_file :: string

definition get_cache_paths :: "file_filter \<Rightarrow> string \<Rightarrow> string \<times> string" where
  "get_cache_paths ff file =
     (let cache_path = str_replace (dirname file) (real_source ff) (cache_dir ff) 1;
          cache_file_name = path_join cache_path [basename file]
      in (cache_path, cache_file_name))"

text \<open>The local \<open>array_file\<close> of \<open>_should_add_to_array\<close> and
  \<open>_should_add_to_cache\<close>.\<close>

definition array_file_of :: "file_filter \<Rightarrow> string \<Rightarrow> string" where
  "array_file_of ff file =
     (if is_unraid ff then str_replace file ''/mnt/user/'' ''/mnt/user0/'' 1 else file)"

definition should_add_to_array ::
  "file_filter \<Rightarrow> string \<Rightarrow> string \<Rightarrow> string list \<Rightarrow> filesystem \<Rightarrow> (error + bool) \<times> filesystem" where
  "should_add_to_array ff file cache_file_name media_to_cache fs =
     (if file \<in> set media_to_cache then (Inr False, fs)
      else
        let array_file = array_file_of ff file in
        if isfile fs array_file then
          (if isfile fs cache_file_name then
             (case os_remove cache_file_name fs of
                (Inl e, fs') \<Rightarrow> (Inl e, fs')
              | (Inr _, fs') \<Rightarrow> (Inr False, fs'))
           else (Inr False, fs))
        else (Inr True, fs))"

definition should_add_to_cache ::
  "file_filter \<Rightarrow> string \<Rightarrow> string \<Rightarrow> filesystem \<Rightarrow> (error + bool) \<times> filesystem" where
  "should_add_to_cache ff file cache_file_name fs =
     (let array_file = array_file_of ff file in
      if isfile fs cache_file_name \<and> isfile fs array_file then
        (case os_remove array_file fs of
           (Inl e, fs') \<Rightarrow> (Inl e, fs')
         | (Inr _, fs') \<Rightarrow> (Inr False, fs'))
      else (Inr (\<not> isfile fs cache_file_name), fs))"

text \<open>\<open>files_to_skip and file in files_to_skip\<close>: \<open>None\<close> and the empty set are
  false.\<close>

definition skipped :: "string set option \<Rightarrow> string \<Rightarrow> bool" where
  "skipped files_to_skip file =
     (case files_to_skip of None \<Rightarrow> False | Some s \<Rightarrow> s \<noteq> {} \<and> file \<in> s)"

text \<open>
  The loop of \<open>filter_files\<close>.  Its state is \<open>processed_files\<close>, \<open>media_to\<close> and
  \<open>cache_files_to_exclude\<close>, and the file system.  A destination that is neither
  \<open>'array'\<close> nor \<open>'cache'\<close> takes neither branch.
\<close>

fun filter_loop ::
  "file_filter \<Rightarrow> string \<Rightarrow> string list \<Rightarrow> string set option \<Rightarrow> string list
   \<Rightarrow> string set \<times> string list \<times> string list \<Rightarrow> filesystem
   \<Rightarrow> (error + string list \<times> string list) \<times> filesystem" where
  "filter_loop ff destination media_to_cache files_to_skip []
     (processed_files, media_to, cache_files_to_exclude) fs =
     (Inr (media_to, cache_files_to_exclude), fs)"
| "filter_loop ff destination media_to_cache files_to_skip (file # files)
     (processed_files, media_to, cache_files_to_exclude) fs =
     (if file \<in> processed_files \<or> skipped files_to_skip file
      then filter_loop ff destination media_to_cache files_to_skip files
             (processed_files, media_to, cache_files_to_exclude) fs
      else
        let cache_file_name = snd (get_cache_paths ff file) in
        if destination = ''array'' then
          (case should_add_to_array ff file cache_file_name media_to_cache fs of
             (Inl e, fs') \<Rightarrow> (Inl e, fs')
           | (Inr add, fs') \<Rightarrow>
               filter_loop ff destination media_to_cache files_to_skip files
                 (insert file processed_files,
                  if add then media_to @ [file] else media_to,
                  cache_files_to_exclude @ [cache_file_name]) fs')
        else if destination = ''cache'' then
          (case should_add_to_cache ff file cache_file_name fs of
             (Inl e, fs') \<Rightarrow> (Inl e, fs')
           | (Inr add, fs') \<Rightarrow>
               filter_loop ff destination media_to_cache files_to_skip files
                 (insert file processed_files,
                  if add then media_to @ [file] else media_to,
                  cache_files_to_exclude @ [cache_file_name]) fs')
        else
          filter_loop ff destination media_to_cache files_to_skip files
            (insert file processed_files, media_to,
             cache_files_to_exclude @ [cache_file_name]) fs)"

text \<open>What the final loop writes to the exclusion file: each item and a newline.\<close>

definition exclude_file_content :: "string list \<Rightarrow> string" where
  "exclude_file_content cache_files_to_exclude =
     concat (map (\<lambda>item. item @ [CHR 0x0A]) cache_files_to_exclude)"

definition filter_files ::
  "file_filter \<Rightarrow> string list \<Rightarrow> string \<Rightarrow> string list option \<Rightarrow> string set option
   \<Rightarrow> filesystem \<Rightarrow> (error + string list) \<times> filesystem" where
  "filter_files ff files destination media_to_cache files_to_skip fs =
     (let media_to_cache' = (case media_to_cache of None \<Rightarrow> [] | Some l \<Rightarrow> l) in
      if files = [] then (Inr [], fs)
      else
        case filter_loop ff destination media_to_cache' files_to_skip files ({}, [], []) fs of
          (Inl e, fs') \<Rightarrow> (Inl e, fs')
        | (Inr (media_to, cache_files_to_exclude), fs') \<Rightarrow>
            if is_unraid ff then
              (case open_write (mover_cache_exclude_file ff)
                      (exclude_file_content cache_files_to_exclude) fs' of
                 (Inl e, fs'') \<Rightarrow> (Inl e, fs'')
               | (Inr _, fs'') \<Rightarrow> (Inr media_to, fs''))
            else (Inr media_to, fs'))"

subsection \<open>\<open>FileMover\<close>\<close>

text \<open>
  \<open>FileMover\<close> holds a \<open>file_utils\<close> object of class \<open>FileUtils\<close>, which
  \<open>system_utils.py\<close> defines and the sources do not include.  Its methods are
  parameters of the model: the two that change the file system, and the two that
  \<open>PlexCacheApp\<close> calls to read a total size and the free space, each returning a
  number and its unit.
\<close>

record file_utils =
  create_directory_with_permissions ::
    "string \<Rightarrow> string \<Rightarrow> filesystem \<Rightarrow> (error + unit) \<times> filesystem"
  move_file :: "string \<Rightarrow> string \<Rightarrow> filesystem \<Rightarrow> (error + unit) \<times> filesystem"
  get_total_size_of_files :: "string list \<Rightarrow> filesystem \<Rightarrow> real \<times> string"
  get_free_space :: "string \<Rightarrow> filesystem \<Rightarrow> real \<times> string"

record file_mover = tier_paths +
  file_utils :: file_utils
  debug :: bool

text \<open>\<open>_get_paths\<close> returns \<open>(user_path, cache_path, cache_file_name,
  user_file_name)\<close>; \<open>os.path.relpath\<close> raises \<open>ValueError\<close> on an empty path and
  reads the working directory \<open>cwd\<close>.\<close>

definition get_paths ::
  "file_mover \<Rightarrow> string \<Rightarrow> string \<Rightarrow> error + string \<times> string \<times> string \<times> string" where
  "get_paths mv cwd file_to_move =
     (let user_path = dirname file_to_move in
      case relpath cwd user_path (real_source mv) of
        Inl e \<Rightarrow> Inl e
      | Inr relative_path \<Rightarrow>
          let cache_path = path_join (cache_dir mv) [relative_path];
              cache_file_name = path_join cache_path [basename file_to_move];
              user_path' = (if is_unraid mv
                            then str_replace user_path ''/mnt/user/'' ''/mnt/user0/'' 1
                            else user_path);
              user_file_name = path_join user_path' [basename file_to_move]
          in Inr (user_path', cache_path, cache_file_name, user_file_name))"

text \<open>A move command is the pair \<open>(source file, destination directory)\<close>;
  \<open>None\<close> is Python's \<open>None\<close>.\<close>

definition get_move_command ::
  "file_mover \<Rightarrow> string \<Rightarrow> string \<Rightarrow> string \<Rightarrow> string \<Rightarrow> string \<Rightarrow> filesystem
   \<Rightarrow> (error + (string \<times> string) option) \<times> filesystem" where
  "get_move_command mv destination cache_file_name user_path user_file_name cache_path fs =
     (if destination = ''array'' then
        (case create_directory_with_permissions (file_utils mv) user_path cache_file_name fs of
           (Inl e, fs') \<Rightarrow> (Inl e, fs')
         | (Inr _, fs') \<Rightarrow>
             (Inr (if isfile fs' cache_file_name then Some (cache_file_name, user_path)
                   else None), fs'))
      else if destination = ''cache'' then
        (case create_directory_with_permissions (file_utils mv) cache_path user_file_name fs of
           (Inl e, fs') \<Rightarrow> (Inl e, fs')
         | (Inr _, fs') \<Rightarrow>
             (Inr (if \<not> isfile fs' cache_file_name then Some (user_file_name, cache_path)
                   else None), fs'))
      else (Inr None, fs))"

text \<open>The loop of \<open>move_media_files\<close>, with its state \<open>processed_files\<close> and
  \<open>move_commands\<close>.\<close>

fun move_loop ::
  "file_mover \<Rightarrow> string \<Rightarrow> string \<Rightarrow> string list \<Rightarrow> string set \<times> (string \<times> string) list
   \<Rightarrow> filesystem \<Rightarrow> (error + (string \<times> string) list) \<times> filesystem" where
  "move_loop mv cwd destination [] (processed_files, move_commands) fs =
     (Inr move_commands, fs)"
| "move_loop mv cwd destination (file_to_move # files) (processed_files, move_commands) fs =
     (if file_to_move \<in> processed_files
      then move_loop mv cwd destination files (processed_files, move_commands) fs
      else
        case get_paths mv cwd file_to_move of
          Inl e \<Rightarrow> (Inl e, fs)
        | Inr (user_path, cache_path, cache_file_name, user_file_name) \<Rightarrow>
            (case get_move_command mv destination cache_file_name user_path user_file_name
                    cache_path fs of
               (Inl e, fs') \<Rightarrow> (Inl e, fs')
             | (Inr move, fs') \<Rightarrow>
                 move_loop mv cwd destination files
                   (insert file_to_move processed_files,
                    case move of None \<Rightarrow> move_commands | Some c \<Rightarrow> move_commands @ [c])
                   fs'))"

text \<open>\<open>_move_file\<close>: 0 on success, 1 when \<open>move_file\<close> raised an \<open>Exception\<close>.\<close>

definition move_file_job ::
  "file_mover \<Rightarrow> string \<times> string \<Rightarrow> filesystem \<Rightarrow> (error + nat) \<times> filesystem" where
  "move_file_job mv move_cmd fs =
     (case move_file (file_utils mv) (fst move_cmd) (snd move_cmd) fs of
        (Inr _, fs') \<Rightarrow> (Inr 0, fs')
      | (Inl e, fs') \<Rightarrow> if is_Exception e then (Inr 1, fs') else (Inl e, fs'))"

text \<open>
  \<open>list(executor.map(job, items))\<close>.  The pool runs the jobs concurrently; the model
  runs them one after the other in the order of the list, which is one of the possible
  schedules.  Every job runs; the first exception in the order of the list is the one
  raised when the results are collected.
\<close>

fun executor_map ::
  "('a \<Rightarrow> filesystem \<Rightarrow> (error + 'b) \<times> filesystem) \<Rightarrow> 'a list \<Rightarrow> filesystem
   \<Rightarrow> (error + 'b list) \<times> filesystem" where
  "executor_map job [] fs = (Inr [], fs)"
| "executor_map job (x # xs) fs =
     (case job x fs of
        (r, fs') \<Rightarrow>
          (case executor_map job xs fs' of
             (rs, fs'') \<Rightarrow>
               (case r of
                  Inl e \<Rightarrow> Inl e
                | Inr v \<Rightarrow> (case rs of Inl e \<Rightarrow> Inl e | Inr vs \<Rightarrow> Inr (v # vs)),
                fs'')))"

text \<open>What the program prints, as events.\<close>

datatype printed =
    PrintMoveCommand "string \<times> string"
  | PrintFinished nat
  | PrintTotalSize string real string
  | PrintFreeSpace string real string
  | PrintNotEnoughSpace string
  | PrintMoving string
  | PrintNothingToMove string

text \<open>\<open>_execute_move_commands\<close>; \<open>ThreadPoolExecutor(max_workers=n)\<close> raises
  \<open>ValueError\<close> unless \<open>n\<close> is positive.\<close>

definition execute_move_commands ::
  "file_mover \<Rightarrow> (string \<times> string) list \<Rightarrow> int \<Rightarrow> int \<Rightarrow> string \<Rightarrow> filesystem
   \<Rightarrow> (error + printed list) \<times> filesystem" where
  "execute_move_commands mv move_commands max_concurrent_moves_array
     max_concurrent_moves_cache destination fs =
     (if debug mv then (Inr (map PrintMoveCommand move_commands), fs)
      else
        let max_concurrent_moves =
              (if destination = ''array'' then max_concurrent_moves_array
               else max_concurrent_moves_cache)
        in if max_concurrent_moves \<le> 0 then (Inl ValueError, fs)
           else
             (case executor_map (move_file_job mv) move_commands fs of
                (Inl e, fs') \<Rightarrow> (Inl e, fs')
              | (Inr results, fs') \<Rightarrow>
                  (Inr [PrintFinished (length (filter (\<lambda>result. result \<noteq> 0) results))],
                   fs')))"

definition move_media_files ::
  "file_mover \<Rightarrow> string \<Rightarrow> string list \<Rightarrow> string \<Rightarrow> int \<Rightarrow> int \<Rightarrow> filesystem
   \<Rightarrow> (error + printed list) \<times> filesystem" where
  "move_media_files mv cwd files destination max_concurrent_moves_array
     max_concurrent_moves_cache fs =
     (case move_loop mv cwd destination files ({}, []) fs of
        (Inl e, fs') \<Rightarrow> (Inl e, fs')
      | (Inr move_commands, fs') \<Rightarrow>
          execute_move_commands mv move_commands max_concurrent_moves_array
            max_concurrent_moves_cache destination fs')"

subsection \<open>\<open>PlexCacheApp._check_free_space_and_move_files\<close>\<close>

text \<open>The attributes of \<open>PlexCacheApp\<close> that the method reads; the two limits are
  \<open>config_manager.performance.max_concurrent_moves_array\<close> and \<open>_cache\<close>.\<close>

record plex_cache_app =
  app_debug :: bool
  app_file_utils :: file_utils
  app_file_filter :: file_filter
  app_file_mover :: file_mover
  app_media_to_cache :: "string list"
  app_files_to_skip :: "string list"
  app_max_concurrent_moves_array :: int
  app_max_concurrent_moves_cache :: int

definition size_multipliers :: "string \<Rightarrow> nat option" where
  "size_multipliers = [''KB'' \<mapsto> 0, ''MB'' \<mapsto> 1, ''GB'' \<mapsto> 2, ''TB'' \<mapsto> 3]"

text \<open>
  The sizes are Python floats.  They are modelled as real numbers: the only arithmetic
  on them is the multiplication by a power of 1024, which is exact in binary floating
  point for every size a file system reports.  \<open>sys.exit(message)\<close> raises
  \<open>SystemExit\<close>.  A missing key of \<open>size_multipliers\<close> raises \<open>KeyError\<close>.
  The method returns \<open>None\<close>; the model returns what it printed when it completes
  normally.  Log records, which repeat the printed lines, and the summary kept by the
  logging manager are not modelled.
\<close>

definition check_free_space_and_move_files ::
  "plex_cache_app \<Rightarrow> string \<Rightarrow> string list \<Rightarrow> string \<Rightarrow> string \<Rightarrow> string \<Rightarrow> filesystem
   \<Rightarrow> (error + printed list) \<times> filesystem" where
  "check_free_space_and_move_files app cwd media_files destination real_source' cache_dir' fs =
     (case filter_files (app_file_filter app) media_files destination
             (Some (app_media_to_cache app)) (Some (set (app_files_to_skip app))) fs of
        (Inl e, fs1) \<Rightarrow> (Inl e, fs1)
      | (Inr media_files_filtered, fs1) \<Rightarrow>
          (case get_total_size_of_files (app_file_utils app) media_files_filtered fs1 of
             (total_size, total_size_unit) \<Rightarrow>
               if total_size > 0 then
                 (case get_free_space (app_file_utils app)
                         (if destination = ''cache'' then cache_dir' else real_source') fs1 of
                    (free_space, free_space_unit) \<Rightarrow>
                      (case size_multipliers total_size_unit of
                         None \<Rightarrow> (Inl (KeyError total_size_unit), fs1)
                       | Some mt \<Rightarrow>
                           (case size_multipliers free_space_unit of
                              None \<Rightarrow> (Inl (KeyError free_space_unit), fs1)
                            | Some mf \<Rightarrow>
                                let total_size_bytes = total_size * 1024 ^ mt;
                                    free_space_bytes = free_space * 1024 ^ mf
                                in if total_size_bytes > free_space_bytes \<and> \<not> app_debug app
                                   then (Inl (SystemExit (''Not enough space on '' @ destination
                                                            @ '' drive.'')), fs1)
                                   else
                                     (case move_media_files (app_file_mover app) cwd
                                             media_files_filtered destination
                                             (app_max_concurrent_moves_array app)
                                             (app_max_concurrent_moves_cache app) fs1 of
                                        (Inl e, fs2) \<Rightarrow> (Inl e, fs2)
                                      | (Inr outs, fs2) \<Rightarrow>
                                          (Inr ([PrintTotalSize destination total_size
                                                   total_size_unit,
                                                 PrintFreeSpace destination free_space
                                                   free_space_unit]
                                                @ (if total_size_bytes > free_space_bytes
                                                   then [PrintNotEnoughSpace destination]
                                                   else [])
                                                @ [PrintMoving destination] @ outs), fs2)))))
               else (Inr [PrintNothingToMove destination], fs1)))"

section \<open>Auxiliary notions for the proofs\<close>

text \<open>\<open>only_removes_files fs fs'\<close>: the file system \<open>fs'\<close> arises from \<open>fs\<close> by
  removing regular files; nothing is created or changed.\<close>

definition only_removes_files :: "filesystem \<Rightarrow> filesystem \<Rightarrow> bool" where
  "only_removes_files fs fs' = (\<forall>p. fs' p = fs p \<or> (fs' p = None \<and> isfile fs p))"

text \<open>The elements of a list in the order of their first occurrence, which is what a
  loop guarded by a set of processed elements visits.\<close>

definition first_occurrences :: "'a list \<Rightarrow> 'a list" where
  "first_occurrences xs = rev (remdups (rev xs))"

text \<open>The move command that the loop of \<open>move_media_files\<close> builds for one file,
  as a list of at most one element, read off a given file system.\<close>

definition command_for ::
  "file_mover \<Rightarrow> string \<Rightarrow> string \<Rightarrow> filesystem \<Rightarrow> string \<Rightarrow> (string \<times> string) list" where
  "command_for mv cwd destination fs f =
     (case get_paths mv cwd f of
        Inl e \<Rightarrow> []
      | Inr (user_path, cache_path, cache_file_name, user_file_name) \<Rightarrow>
          if destination = ''array'' then
            (if isfile fs cache_file_name then [(cache_file_name, user_path)] else [])
          else if destination = ''cache'' then
            (if \<not> isfile fs cache_file_name then [(user_file_name, cache_path)] else [])
          else [])"

text \<open>A path component that \<open>os.path.normpath\<close> keeps as it is, and the absolute
  path made of a list of components, each preceded by a slash.\<close>

definition normal_component :: "string \<Rightarrow> bool" where
  "normal_component c = (c \<noteq> [] \<and> CHR ''/'' \<notin> set c \<and> c \<noteq> ''.'' \<and> c \<noteq> ''..'')"

definition slashed :: "string list \<Rightarrow> string" where
  "slashed comps = concat (map (\<lambda>c. CHR ''/'' # c) comps)"

text \<open>The arguments with which the loop of \<open>move_media_files\<close> calls the directory
  ensure for one file, as a list of at most one pair, and a run of such calls one after
  the other that stops at the first call that raises.\<close>

definition ensure_call :: "file_mover \<Rightarrow> string \<Rightarrow> string \<Rightarrow> string \<Rightarrow> (string \<times> string) list" where
  "ensure_call mv cwd destination f =
     (case get_paths mv cwd f of
        Inl e \<Rightarrow> []
      | Inr (user_path, cache_path, cache_file_name, user_file_name) \<Rightarrow>
          if destination = ''array'' then [(user_path, cache_file_name)]
          else if destination = ''cache'' then [(cache_path, user_file_name)]
          else [])"

fun ensure_all ::
  "file_utils \<Rightarrow> (string \<times> string) list \<Rightarrow> filesystem \<Rightarrow> (error + unit) \<times> filesystem" where
  "ensure_all fu [] fs = (Inr (), fs)"
| "ensure_all fu ((path, src) # calls) fs =
     (case create_directory_with_permissions fu path src fs of
        (Inl e, fs') \<Rightarrow> (Inl e, fs')
      | (Inr _, fs') \<Rightarrow> ensure_all fu calls fs')"

section \<open>Example configurations\<close>

text \<open>The fixture of \<open>TestFilePathModifier\<close> in \<open>test_example.py\<close>, and a
  configuration whose physical library folders differ from the logical ones.\<close>

definition test_modifier :: file_path_modifier where
  "test_modifier =
     \<lparr>real_source = ''/mnt/user/'', plex_source = ''/media/'',
      plex_library_folders = [''movies'', ''tv''],
      nas_library_folders = [''movies'', ''tv'']\<rparr>"

definition demo_modifier :: file_path_modifier where
  "demo_modifier =
     \<lparr>real_source = ''/real/'', plex_source = ''/media/'',
      plex_library_folders = [''movies'', ''tv''],
      nas_library_folders = [''films'', ''shows'']\<rparr>"

text \<open>The fixture of \<open>TestFileFilter\<close> in \<open>test_example.py\<close>, and the same
  configuration off Unraid.\<close>

definition test_filter :: file_filter where
  "test_filter =
     \<lparr>real_source = ''/mnt/user/'', cache_dir = ''/mnt/cache/'', is_unraid = True,
      mover_cache_exclude_file = ''/tmp/exclude.txt''\<rparr>"

definition plain_filter :: file_filter where
  "plain_filter =
     \<lparr>real_source = ''/mnt/user/'', cache_dir = ''/mnt/cache/'', is_unraid = False,
      mover_cache_exclude_file = ''/tmp/exclude.txt''\<rparr>"

text \<open>
  Modelled from the spec: \<open>FileUtils.create_directory_with_permissions\<close> and
  \<open>FileUtils.move_file\<close> of \<open>system_utils.py\<close>, which is not among the sources.
  The spec's directory ensure creates the destination directory if it is absent and
  falls back to default permissions; its move transfers one file into the destination
  directory and fails when it cannot.
\<close>

definition spec_create_directory_with_permissions ::
  "string \<Rightarrow> string \<Rightarrow> filesystem \<Rightarrow> (error + unit) \<times> filesystem" where
  "spec_create_directory_with_permissions path src_file_for_permissions fs =
     (case fs path of
        None \<Rightarrow> (Inr (), fs(path \<mapsto> Directory []))
      | Some _ \<Rightarrow> (Inr (), fs))"

definition spec_move_file ::
  "string \<Rightarrow> string \<Rightarrow> filesystem \<Rightarrow> (error + unit) \<times> filesystem" where
  "spec_move_file src dest fs =
     (case fs src of
        Some (RegularFile content) \<Rightarrow>
          (Inr (), fs(src := None, path_join dest [basename src] \<mapsto> RegularFile content))
      | _ \<Rightarrow> (Inl FileNotFoundError, fs))"

text \<open>A \<open>FileUtils\<close> whose size readings are fixed: the size of the batch and the
  free space of the destination.\<close>

definition demo_file_utils :: "real \<times> string \<Rightarrow> real \<times> string \<Rightarrow> file_utils" where
  "demo_file_utils total_reading free_reading =
     \<lparr>create_directory_with_permissions = spec_create_directory_with_permissions,
      move_file = spec_move_file,
      get_total_size_of_files = (\<lambda>files fs. total_reading),
      get_free_space = (\<lambda>path fs. free_reading)\<rparr>"

definition demo_mover :: "bool \<Rightarrow> bool \<Rightarrow> file_mover" where
  "demo_mover unraid dbg =
     \<lparr>real_source = ''/mnt/user/'', cache_dir = ''/mnt/cache/'', is_unraid = unraid,
      file_utils = demo_file_utils (0, ''KB'') (0, ''KB''), debug = dbg\<rparr>"

text \<open>Small file systems: a show with its subtitles in one directory, and regular
  files at the given paths beside an empty directory \<open>/tmp\<close>.\<close>

definition tv_directory :: filesystem where
  "tv_directory =
     [''/mnt/user/tv'' \<mapsto>
        Directory [\<lparr>entry_name = ''show.mkv'', entry_is_file = True\<rparr>,
                   \<lparr>entry_name = ''show.srt'', entry_is_file = True\<rparr>,
                   \<lparr>entry_name = ''show.en.vtt'', entry_is_file = True\<rparr>,
                   \<lparr>entry_name = ''other.srt'', entry_is_file = True\<rparr>]]"

definition files_at :: "string list \<Rightarrow> filesystem" where
  "files_at paths =
     (\<lambda>path. if path \<in> set paths then Some (RegularFile ''data'')
             else if path = ''/tmp'' then Some (Directory [])
             else None)"

definition both_tiers :: filesystem where
  "both_tiers = files_at [''/mnt/user0/movies/test.mkv'', ''/mnt/cache/movies/test.mkv'']"

definition test_movie :: string where
  "test_movie = ''/mnt/user/movies/test.mkv''"

text \<open>An application on Unraid whose \<open>FileUtils\<close> reports the given size readings,
  built as \<open>_initialize_components\<close> builds it: the mover shares the application's
  \<open>file_utils\<close> and \<open>debug\<close>.\<close>

definition demo_app :: "bool \<Rightarrow> real \<times> string \<Rightarrow> real \<times> string \<Rightarrow> plex_cache_app" where
  "demo_app dbg total_reading free_reading =
     \<lparr>app_debug = dbg,
      app_file_utils = demo_file_utils total_reading free_reading,
      app_file_filter = test_filter,
      app_file_mover = (demo_mover True dbg)\<lparr>file_utils := demo_file_utils total_reading free_reading\<rparr>,
      app_media_to_cache = [],
      app_files_to_skip = [],
      app_max_concurrent_moves_array = 2,
      app_max_concurrent_moves_cache = 2\<rparr>"

definition array_only :: filesystem where
  "array_only = files_at [''/mnt/user0/movies/test.mkv'']"

section \<open>Path translation\<close>

lemma str_replace_zero: "str_replace s old new 0 = s"
  by (cases s) simp_all

lemma str_replace_first_prefix:
  assumes "startswith s old"
  shows "str_replace s old new 1 = new @ drop (length old) s"
proof (cases s)
  case Nil
  with assms show ?thesis by (auto simp: startswith_def)
next
  case (Cons c cs)
  with assms show ?thesis by (cases old) (auto simp: startswith_def str_replace_zero)
qed

lemma library_folder_loop_total:
  "j + length folders \<le> length nas \<Longrightarrow> \<exists>q. library_folder_loop nas j folders p = Inr q"
  by (induction folders arbitrary: j) auto

lemma modify_path_total:
  "length (plex_library_folders m) \<le> length (nas_library_folders m)
   \<Longrightarrow> \<exists>q. modify_path m p = Inr q"
  unfolding modify_path_def by (rule library_folder_loop_total) simp

lemma modify_loop_map:
  "(\<And>p. \<exists>q. modify_path m p = Inr q) \<Longrightarrow>
   \<exists>out. modify_loop m i files = Inr out
           \<and> map Inr out = map Inr (take i files) @ map (modify_path m) (drop i files)"
proof (induction m i files rule: modify_loop.induct)
  case (1 m i files)
  show ?case
  proof (cases "i < length files")
    case False
    then show ?thesis by (simp add: modify_loop.simps)
  next
    case True
    obtain q where q: "modify_path m (files ! i) = Inr q" using "1.prems" by blast
    from "1.IH"[OF True q "1.prems"] obtain out where
      out: "modify_loop m (Suc i) (files[i := q]) = Inr out"
           "map Inr out = map Inr (take (Suc i) (files[i := q]))
              @ map (modify_path m) (drop (Suc i) (files[i := q]))"
      by blast
    have t: "take (Suc i) (files[i := q]) = take i files @ [q]"
      using True by (simp add: take_Suc_conv_app_nth)
    have d: "drop i files = files ! i # drop (Suc i) files"
      using True by (simp add: Cons_nth_drop_Suc)
    have "modify_loop m i files = Inr out"
      using True q out(1) by (subst modify_loop.simps) simp
    moreover have "map Inr out = map Inr (take i files) @ map (modify_path m) (drop i files)"
      using out(2) t d q by simp
    ultimately show ?thesis by blast
  qed
qed

text \<open>
  C6.  When every logical library folder has a physical counterpart (the two lists are
  positionally paired), \<open>modify_file_paths\<close> returns normally; its result is, in the
  order of the input, the translation of exactly the paths that begin with
  \<open>plex_source\<close>; and both the empty list and \<open>None\<close> yield the empty list.
\<close>

theorem modify_file_paths_filters_in_order:
  assumes "length (plex_library_folders m) \<le> length (nas_library_folders m)"
  shows "(\<exists>out. modify_file_paths m (Some files) = Inr out
            \<and> map Inr out
                = map (modify_path m) (filter (\<lambda>p. startswith p (plex_source m)) files))
         \<and> modify_file_paths m (Some []) = Inr []
         \<and> modify_file_paths m None = Inr []"
proof -
  have tot: "\<And>p. \<exists>q. modify_path m p = Inr q"
    using assms by (rule modify_path_total)
  have "\<exists>out. modify_file_paths m (Some files) = Inr out
            \<and> map Inr out
                = map (modify_path m) (filter (\<lambda>p. startswith p (plex_source m)) files)"
    using modify_loop_map[OF tot, of 0 "filter (\<lambda>p. startswith p (plex_source m)) files"]
    by (simp add: modify_file_paths_def)
  moreover have "modify_file_paths m (Some []) = Inr []"
    by (simp add: modify_file_paths_def modify_loop.simps)
  moreover have "modify_file_paths m None = Inr []"
    by (simp add: modify_file_paths_def)
  ultimately show ?thesis by blast
qed

theorem modify_file_paths_filters_in_order_witness:
  "length (plex_library_folders test_modifier) \<le> length (nas_library_folders test_modifier)
   \<and> modify_file_paths test_modifier
         (Some [''/media/movies/test.mkv'', ''/media/tv/show/s01e01.mkv'', ''/other/path/file.mkv''])
       = Inr [''/mnt/user/movies/test.mkv'', ''/mnt/user/tv/show/s01e01.mkv'']"
proof -
  have h: "length (plex_library_folders test_modifier)
             \<le> length (nas_library_folders test_modifier)"
    by (simp add: test_modifier_def)
  from modify_file_paths_filters_in_order[OF h,
      of "[''/media/movies/test.mkv'', ''/media/tv/show/s01e01.mkv'', ''/other/path/file.mkv'']"]
  obtain out where
    o1: "modify_file_paths test_modifier
           (Some [''/media/movies/test.mkv'', ''/media/tv/show/s01e01.mkv'', ''/other/path/file.mkv''])
         = Inr out"
    and o2: "map Inr out = map (modify_path test_modifier)
               (filter (\<lambda>p. startswith p (plex_source test_modifier))
                  [''/media/movies/test.mkv'', ''/media/tv/show/s01e01.mkv'', ''/other/path/file.mkv''])"
    by blast
  have "map (modify_path test_modifier)
          (filter (\<lambda>p. startswith p (plex_source test_modifier))
             [''/media/movies/test.mkv'', ''/media/tv/show/s01e01.mkv'', ''/other/path/file.mkv''])
        = [Inr ''/mnt/user/movies/test.mkv'', Inr ''/mnt/user/tv/show/s01e01.mkv'']"
    by (simp add: test_modifier_def modify_path_def startswith_def)
  with o2 have "out = [''/mnt/user/movies/test.mkv'', ''/mnt/user/tv/show/s01e01.mkv'']"
    by (auto simp: map_eq_Cons_conv)
  with o1 h show ?thesis by simp
qed

text \<open>
  C7.  The substitution of the library folder, \<open>replace(folder, nas_folder)\<close>, has no
  count, unlike the substitution of the source prefix one statement before it,
  \<open>replace(plex_source, real_source, 1)\<close>.  With the library folder \<open>tv\<close> mapped to
  \<open>shows\<close>, the path \<open>/media/tv/tv.mkv\<close> becomes \<open>/real/shows/shows.mkv\<close>: the
  name of the media file is rewritten together with its library folder, whereas
  replacing the first occurrence only gives \<open>/real/shows/tv.mkv\<close>.
\<close>

theorem modify_file_paths_replaces_every_occurrence:
  "modify_file_paths demo_modifier (Some [''/media/tv/tv.mkv'']) = Inr [''/real/shows/shows.mkv'']
   \<and> str_replace ''/real/tv/tv.mkv'' ''tv'' ''shows'' 1 = ''/real/shows/tv.mkv''"
  by code_simp

section \<open>Subtitle companions\<close>

text \<open>
  C8.  The comprehension of \<open>_find_subtitle_files\<close> compares \<open>entry.name\<close>, a bare
  file name, with \<open>file\<close>, the full path of the media file.  In the directory
  \<open>/mnt/user/tv\<close>, which holds \<open>show.mkv\<close>, \<open>show.srt\<close>, \<open>show.en.vtt\<close> and
  \<open>other.srt\<close>, the companions computed for the media path \<open>/mnt/user/tv/show.srt\<close>
  include that path itself.
\<close>

theorem find_subtitle_files_returns_media_file_itself:
  "find_subtitle_files default_subtitle_extensions tv_directory
     ''/mnt/user/tv'' ''/mnt/user/tv/show.srt''
   = Inr [''/mnt/user/tv/show.srt'', ''/mnt/user/tv/show.en.vtt'']"
  by code_simp

section \<open>Placement decisions\<close>

lemma remdups_snoc: "remdups (zs @ [x]) = filter (\<lambda>z. z \<noteq> x) (remdups zs) @ [x]"
  by (induction zs) auto

lemma first_occurrences_Nil: "first_occurrences [] = []"
  by (simp add: first_occurrences_def)

lemma first_occurrences_Cons:
  "first_occurrences (x # xs) = x # filter (\<lambda>z. z \<noteq> x) (first_occurrences xs)"
  by (simp add: first_occurrences_def remdups_snoc rev_filter)

lemma first_occurrences_filter:
  "first_occurrences (filter Q xs) = filter Q (first_occurrences xs)"
  by (simp add: first_occurrences_def remdups_filter rev_filter)

lemma set_first_occurrences: "set (first_occurrences xs) = set xs"
  by (simp add: first_occurrences_def)

lemma distinct_first_occurrences: "distinct (first_occurrences xs)"
  by (simp add: first_occurrences_def)

lemma only_removes_files_refl: "only_removes_files fs fs"
  by (simp add: only_removes_files_def)

lemma only_removes_files_trans:
  "only_removes_files fs fs1 \<Longrightarrow> only_removes_files fs1 fs2 \<Longrightarrow> only_removes_files fs fs2"
  unfolding only_removes_files_def isfile_def
  by (metis option.simps(4))

lemma only_removes_files_remove:
  "isfile fs x \<Longrightarrow> only_removes_files fs (fs(x := None))"
  by (simp add: only_removes_files_def)


lemma only_removes_files_isdir:
  "only_removes_files fs fs' \<Longrightarrow> isdir fs' p = isdir fs p"
  unfolding only_removes_files_def isfile_def isdir_def
  by (drule spec[of _ p]) (auto split: option.splits node.splits)

lemma should_add_to_array_eq:
  "should_add_to_array ff file c mtc fs =
     (if file \<in> set mtc then (Inr False, fs)
      else if isfile fs (array_file_of ff file)
        then (Inr False, if isfile fs c then fs(c := None) else fs)
      else (Inr True, fs))"
  by (auto simp: should_add_to_array_def os_remove_def isfile_def Let_def
           split: option.splits node.splits)

lemma should_add_to_cache_eq:
  "should_add_to_cache ff file c fs =
     (if isfile fs c \<and> isfile fs (array_file_of ff file)
      then (Inr False, fs((array_file_of ff file) := None))
      else (Inr (\<not> isfile fs c), fs))"
  by (auto simp: should_add_to_cache_def os_remove_def isfile_def Let_def
           split: option.splits node.splits)

text \<open>The loop of \<open>filter_files\<close> never raises; it only removes regular files; it adds
  to \<open>media_to\<close> only files of the input that were not processed before; and it
  appends to \<open>cache_files_to_exclude\<close> the cache file names of the files it visits.\<close>

lemma filter_loop_general:
  "\<exists>mt ex fs'. filter_loop ff d mtc sk files (P, M, E) fs = (Inr (mt, ex), fs')
     \<and> only_removes_files fs fs'
     \<and> set mt \<subseteq> set M \<union> (set files - P)
     \<and> ex = E @ map (\<lambda>f. snd (get_cache_paths ff f))
                  (first_occurrences (filter (\<lambda>f. f \<notin> P \<and> \<not> skipped sk f) files))"
proof (induction files arbitrary: P M E fs)
  case Nil
  then show ?case by (simp add: only_removes_files_refl first_occurrences_Nil)
next
  case (Cons f files)
  let ?c = "snd (get_cache_paths ff f)"
  show ?case
  proof (cases "f \<in> P \<or> skipped sk f")
    case True
    with Cons.IH[of P M E fs] show ?thesis by auto
  next
    case False
    obtain add fs1 where step:
      "filter_loop ff d mtc sk (f # files) (P, M, E) fs
         = filter_loop ff d mtc sk files
             (insert f P, if add then M @ [f] else M, E @ [?c]) fs1"
      "only_removes_files fs fs1"
    proof (cases "d = ''array''")
      case True
      show ?thesis
        by (rule that[of "\<not> (f \<in> set mtc \<or> isfile fs (array_file_of ff f))"
                        "if f \<notin> set mtc \<and> isfile fs (array_file_of ff f) \<and> isfile fs ?c
                         then fs(?c := None) else fs"])
           (use False True in \<open>auto simp: Let_def should_add_to_array_eq only_removes_files_refl
              only_removes_files_remove\<close>)
    next
      case na: False
      show ?thesis
      proof (cases "d = ''cache''")
        case True
        show ?thesis
          by (rule that[of "\<not> isfile fs ?c"
                          "if isfile fs ?c \<and> isfile fs (array_file_of ff f)
                           then fs((array_file_of ff f) := None) else fs"])
             (use False True in \<open>auto simp: Let_def should_add_to_cache_eq only_removes_files_refl
                only_removes_files_remove\<close>)
      next
        case nc: False
        show ?thesis
          by (rule that[of False fs])
             (use False na nc in \<open>auto simp: Let_def only_removes_files_refl\<close>)
      qed
    qed
    from Cons.IH[of "insert f P" "if add then M @ [f] else M" "E @ [?c]" fs1]
    obtain mt ex fs' where r:
      "filter_loop ff d mtc sk files (insert f P, if add then M @ [f] else M, E @ [?c]) fs1
         = (Inr (mt, ex), fs')"
      "only_removes_files fs1 fs'"
      "set mt \<subseteq> set (if add then M @ [f] else M) \<union> (set files - insert f P)"
      "ex = (E @ [?c]) @ map (\<lambda>f. snd (get_cache_paths ff f))
              (first_occurrences (filter (\<lambda>g. g \<notin> insert f P \<and> \<not> skipped sk g) files))"
      by blast
    have fo: "first_occurrences (filter (\<lambda>g. g \<notin> P \<and> \<not> skipped sk g) (f # files))
                = f # first_occurrences (filter (\<lambda>g. g \<notin> insert f P \<and> \<not> skipped sk g) files)"
    proof -
      have "filter (\<lambda>z. z \<noteq> f) (filter (\<lambda>g. g \<notin> P \<and> \<not> skipped sk g) files)
              = filter (\<lambda>g. g \<notin> insert f P \<and> \<not> skipped sk g) files"
        by (auto intro: filter_cong)
      then show ?thesis
        using False
        by (simp add: first_occurrences_Cons first_occurrences_filter[symmetric])
    qed
    have "set mt \<subseteq> set M \<union> (set (f # files) - P)"
      using r(3) False by (auto split: if_splits)
    moreover have "only_removes_files fs fs'"
      using step(2) r(2) by (rule only_removes_files_trans)
    ultimately show ?thesis
      using step(1) r(1) r(4) fo by simp
  qed
qed



lemma filter_loop_unknown:
  assumes "d \<noteq> ''array''" and "d \<noteq> ''cache''"
  shows "\<exists>ex. filter_loop ff d mtc sk files (P, M, E) fs = (Inr (M, ex), fs)"
  using assms by (induction files arbitrary: P E) (auto simp: Let_def)

declare filter_loop.simps(2) [simp del]




text \<open>When \<open>open(path, "w")\<close> succeeds, and that removing regular files does not
  change whether it does.\<close>

lemma basename_rstrip: "basename path \<noteq> [] \<Longrightarrow> rstrip CHR ''/'' path = path"
proof -
  assume "basename path \<noteq> []"
  then have "takeWhile (\<lambda>c. c \<noteq> CHR ''/'') (rev path) \<noteq> []"
    by (simp add: basename_def path_split_def Let_def)
  then obtain c cs where "rev path = c # cs" "c \<noteq> CHR ''/''"
    by (cases "rev path") (auto split: if_splits)
  then show ?thesis by (simp add: rstrip_def rev_swap[symmetric])
qed

lemma basename_nonempty: "basename path \<noteq> [] \<Longrightarrow> path \<noteq> []"
  by (auto simp: basename_def path_split_def)

lemma open_write_eq:
  assumes "can_create_file fs path"
  shows "open_write path content fs = (Inr (), fs(path \<mapsto> RegularFile content))"
proof -
  from assms have b: "basename path \<noteq> []" and d: "\<not> isdir fs path"
    and p: "dirname path = []
            \<or> (case fs (dirname path) of Some (Directory _) \<Rightarrow> True | _ \<Rightarrow> False)"
    by (auto simp: can_create_file_def)
  from b have ne: "path \<noteq> []" and rs: "rstrip CHR ''/'' path = path"
    by (simp_all add: basename_nonempty basename_rstrip)
  from p show ?thesis
    using b d ne
    by (auto simp: open_write_def rs isdir_def Let_def split: option.splits node.splits)
qed

lemma can_create_file_only_removes_files:
  assumes "only_removes_files fs fs1" and "can_create_file fs path"
  shows "can_create_file fs1 path"
proof -
  from assms(1) have "isdir fs1 path = isdir fs path"
    by (rule only_removes_files_isdir)
  moreover have "fs1 (dirname path) = fs (dirname path)"
    if "case fs (dirname path) of Some (Directory _) \<Rightarrow> True | _ \<Rightarrow> False"
    using that assms(1)[unfolded only_removes_files_def, rule_format, of "dirname path"]
    by (auto simp: isfile_def split: option.splits node.splits)
  ultimately show ?thesis
    using assms(2) by (auto simp: can_create_file_def)
qed

lemma filter_files_eq:
  assumes "files \<noteq> []"
    and "filter_loop ff d (case mtc of None \<Rightarrow> [] | Some l \<Rightarrow> l) sk files ({}, [], []) fs
           = (Inr (mt, ex), fs1)"
    and "is_unraid ff \<longrightarrow> can_create_file fs1 (mover_cache_exclude_file ff)"
  shows "filter_files ff files d mtc sk fs =
           (Inr mt,
            if is_unraid ff
            then fs1(mover_cache_exclude_file ff \<mapsto> RegularFile (exclude_file_content ex))
            else fs1)"
  using assms by (simp add: filter_files_def open_write_eq)

lemma isfile_update_other: "p \<noteq> q \<Longrightarrow> isfile (fs(q := v)) p = isfile fs p"
  by (simp add: isfile_def)






text \<open>
  C9, as the code has it.  A pass over an empty input returns the empty batch and leaves
  the file system as it is.  On Unraid, a pass over a non-empty input whose exclusion
  file can be opened for writing (it has a file name, is not a directory, and its
  directory part is empty or an existing directory) returns a batch and leaves in the
  exclusion file one line for each distinct input file that is not skipped, in the order
  of first occurrence: the cache file name and a newline.  Off Unraid the pass writes
  nothing: every path either holds what it held before, or held a regular file that the
  pass removed.
\<close>

theorem filter_files_writes_exclusion_file:
  assumes "filter_files ff files destination media_to_cache files_to_skip fs = (r, fs')"
  shows "(files = [] \<longrightarrow> r = Inr [] \<and> fs' = fs)
         \<and> (is_unraid ff \<and> files \<noteq> [] \<and> can_create_file fs (mover_cache_exclude_file ff) \<longrightarrow>
            (\<exists>media_to. r = Inr media_to)
            \<and> fs' (mover_cache_exclude_file ff)
                = Some (RegularFile
                    (concat (map (\<lambda>f. snd (get_cache_paths ff f) @ [CHR 0x0A])
                       (first_occurrences (filter (\<lambda>f. \<not> skipped files_to_skip f) files))))))
         \<and> (\<not> is_unraid ff \<longrightarrow> (\<forall>p. fs' p = fs p \<or> (fs' p = None \<and> isfile fs p)))"
proof (cases "files = []")
  case True
  with assms show ?thesis by (simp add: filter_files_def)
next
  case False
  let ?mtc = "case media_to_cache of None \<Rightarrow> [] | Some l \<Rightarrow> l"
  let ?x = "mover_cache_exclude_file ff"
  obtain mt ex fs1 where loop:
    "filter_loop ff destination ?mtc files_to_skip files ({}, [], []) fs = (Inr (mt, ex), fs1)"
    and orf: "only_removes_files fs fs1"
    and ex: "ex = [] @ map (\<lambda>f. snd (get_cache_paths ff f))
                  (first_occurrences (filter (\<lambda>f. f \<notin> {} \<and> \<not> skipped files_to_skip f) files))"
    using filter_loop_general[of ff destination ?mtc files_to_skip files "{}" "[]" "[]" fs]
    by blast
  have content: "exclude_file_content ex
      = concat (map (\<lambda>f. snd (get_cache_paths ff f) @ [CHR 0x0A])
          (first_occurrences (filter (\<lambda>f. \<not> skipped files_to_skip f) files)))"
    using ex by (simp add: exclude_file_content_def comp_def)
  have unraid: "(\<exists>media_to. r = Inr media_to)
                \<and> fs' ?x = Some (RegularFile (exclude_file_content ex))"
    if u: "is_unraid ff" and w: "can_create_file fs ?x"
  proof -
    from orf w have "can_create_file fs1 ?x" by (rule can_create_file_only_removes_files)
    with filter_files_eq[OF False loop] assms u show ?thesis by auto
  qed
  have plain: "fs' = fs1" if "\<not> is_unraid ff"
    using filter_files_eq[OF False loop] assms that by auto
  show ?thesis
    using False unraid plain content orf by (auto simp: only_removes_files_def)
qed

theorem filter_files_writes_exclusion_file_witness:
  "is_unraid test_filter
   \<and> [''/mnt/user/movies/a.mkv'', ''/mnt/user/tv/b.mkv'', ''/mnt/user/movies/a.mkv''] \<noteq> []
   \<and> can_create_file both_tiers (mover_cache_exclude_file test_filter)
   \<and> snd (filter_files test_filter
             [''/mnt/user/movies/a.mkv'', ''/mnt/user/tv/b.mkv'', ''/mnt/user/movies/a.mkv'']
             ''cache'' None None both_tiers) ''/tmp/exclude.txt''
       = Some (RegularFile (''/mnt/cache/movies/a.mkv'' @ [CHR 0x0A]
                            @ ''/mnt/cache/tv/b.mkv'' @ [CHR 0x0A]))"
proof -
  let ?files = "[''/mnt/user/movies/a.mkv'', ''/mnt/user/tv/b.mkv'', ''/mnt/user/movies/a.mkv'']"
  let ?R = "filter_files test_filter ?files ''cache'' None None both_tiers"
  have h: "?R = (fst ?R, snd ?R)" by simp
  have u: "is_unraid test_filter" by (simp add: test_filter_def)
  have d: "can_create_file both_tiers (mover_cache_exclude_file test_filter)" by code_simp
  have x: "mover_cache_exclude_file test_filter = ''/tmp/exclude.txt''"
    by (simp add: test_filter_def)
  have c: "concat (map (\<lambda>f. snd (get_cache_paths test_filter f) @ [CHR 0x0A])
             (first_occurrences (filter (\<lambda>f. \<not> skipped None f) ?files)))
           = ''/mnt/cache/movies/a.mkv'' @ [CHR 0x0A] @ ''/mnt/cache/tv/b.mkv'' @ [CHR 0x0A]"
    by code_simp
  from filter_files_writes_exclusion_file[OF h] u d
  have "snd ?R (mover_cache_exclude_file test_filter)
          = Some (RegularFile
              (concat (map (\<lambda>f. snd (get_cache_paths test_filter f) @ [CHR 0x0A])
                 (first_occurrences (filter (\<lambda>f. \<not> skipped None f) ?files)))))"
    by simp
  with u d show ?thesis unfolding c x by simp
qed

text \<open>A skipped file: its cache file name is not written, and the exclusion file is
  left empty.\<close>

theorem filter_files_skipped_file_not_written_counterexample:
  "snd (filter_files test_filter [''/mnt/user/movies/test.mkv''] ''cache'' (Some [])
          (Some {''/mnt/user/movies/test.mkv''}) both_tiers) ''/tmp/exclude.txt''
     = Some (RegularFile [])
   \<and> snd (get_cache_paths test_filter ''/mnt/user/movies/test.mkv'')
     = ''/mnt/cache/movies/test.mkv''"
  by code_simp

section \<open>Move commands\<close>

lemma relpath_total: "path \<noteq> [] \<Longrightarrow> \<exists>r. relpath cwd path start = Inr r"
  by (simp add: relpath_def Let_def split: list.split)

lemma get_paths_total:
  "dirname f \<noteq> [] \<Longrightarrow> \<exists>u cp cf uf. get_paths mv cwd f = Inr (u, cp, cf, uf)"
  using relpath_total[of "dirname f" cwd "real_source mv"]
  by (auto simp: get_paths_def Let_def)

lemma move_loop_unknown:
  assumes "d \<noteq> ''array''" and "d \<noteq> ''cache''" and "\<forall>f \<in> set files. dirname f \<noteq> []"
  shows "move_loop mv cwd d files (P, C) fs = (Inr C, fs)"
  using assms(3)
proof (induction files arbitrary: P)
  case Nil
  then show ?case by simp
next
  case (Cons g files)
  from Cons.prems have "dirname g \<noteq> []" by simp
  then obtain u cp cf uf where "get_paths mv cwd g = Inr (u, cp, cf, uf)"
    using get_paths_total by blast
  with Cons assms(1,2) show ?case
    by (simp add: get_move_command_def)
qed

lemma command_for_isfile_cong:
  "(\<And>p. isfile s p = isfile s' p) \<Longrightarrow> command_for mv cwd d s = command_for mv cwd d s'"
  by (rule ext) (simp add: command_for_def split: sum.splits prod.splits)

lemma get_move_command_result:
  assumes cd: "\<And>path src s p.
      isfile (snd (create_directory_with_permissions (file_utils mv) path src s)) p = isfile s p"
    and "get_move_command mv d cf u uf cp fs = (Inr m, fs1)"
  shows "(\<forall>p. isfile fs1 p = isfile fs p)
       \<and> (case m of None \<Rightarrow> [] | Some c \<Rightarrow> [c])
           = (if d = ''array'' then (if isfile fs cf then [(cf, u)] else [])
              else if d = ''cache'' then (if \<not> isfile fs cf then [(uf, cp)] else [])
              else [])"
proof (cases "d = ''array''")
  case True
  obtain r s where c: "create_directory_with_permissions (file_utils mv) u cf fs = (r, s)"
    by (cases "create_directory_with_permissions (file_utils mv) u cf fs")
  with cd[of u cf fs] have "\<And>p. isfile s p = isfile fs p" by simp
  with assms(2) True c show ?thesis
    by (auto simp: get_move_command_def split: sum.splits if_splits)
next
  case na: False
  show ?thesis
  proof (cases "d = ''cache''")
    case True
    obtain r s where c: "create_directory_with_permissions (file_utils mv) cp uf fs = (r, s)"
      by (cases "create_directory_with_permissions (file_utils mv) cp uf fs")
    with cd[of cp uf fs] have "\<And>p. isfile s p = isfile fs p" by simp
    with assms(2) True c show ?thesis
      by (auto simp: get_move_command_def split: sum.splits if_splits)
  next
    case False
    with na assms(2) show ?thesis by (auto simp: get_move_command_def)
  qed
qed

text \<open>When the directory ensure leaves the regular files alone, the commands the loop
  builds are those of the distinct files in the order of their first occurrence, each
  read off the file system the loop started with.\<close>

lemma move_loop_commands:
  assumes cd: "\<And>path src s p.
      isfile (snd (create_directory_with_permissions (file_utils mv) path src s)) p = isfile s p"
    and "move_loop mv cwd d files (P, C) fs = (Inr cmds, fs')"
  shows "cmds = C @ concat (map (command_for mv cwd d fs)
                             (first_occurrences (filter (\<lambda>f. f \<notin> P) files)))
       \<and> (\<forall>p. isfile fs' p = isfile fs p)"
  using assms(2)
proof (induction files arbitrary: P C fs)
  case Nil
  then show ?case by (simp add: first_occurrences_Nil)
next
  case (Cons g files)
  show ?case
  proof (cases "g \<in> P")
    case True
    with Cons show ?thesis by simp
  next
    case False
    from Cons.prems False obtain u cp cf uf where gp: "get_paths mv cwd g = Inr (u, cp, cf, uf)"
      by (auto split: sum.splits)
    from Cons.prems False gp obtain m fs1 where
      gm: "get_move_command mv d cf u uf cp fs = (Inr m, fs1)"
      and l: "move_loop mv cwd d files
                (insert g P, case m of None \<Rightarrow> C | Some c \<Rightarrow> C @ [c]) fs1 = (Inr cmds, fs')"
      by (auto split: sum.splits prod.splits)
    from get_move_command_result[OF cd gm]
    have same: "\<And>p. isfile fs1 p = isfile fs p"
      and m: "(case m of None \<Rightarrow> [] | Some c \<Rightarrow> [c]) = command_for mv cwd d fs g"
      using gp by (auto simp: command_for_def)
    have C: "(case m of None \<Rightarrow> C | Some c \<Rightarrow> C @ [c]) = C @ command_for mv cwd d fs g"
      using m by (cases m) auto
    have fo: "first_occurrences (filter (\<lambda>f. f \<notin> P) (g # files))
                = g # first_occurrences (filter (\<lambda>f. f \<notin> insert g P) files)"
    proof -
      have "filter (\<lambda>z. z \<noteq> g) (filter (\<lambda>f. f \<notin> P) files)
              = filter (\<lambda>f. f \<notin> insert g P) files"
        by (auto intro: filter_cong)
      then show ?thesis
        using False by (simp add: first_occurrences_Cons first_occurrences_filter[symmetric])
    qed
    from Cons.IH[OF l] same command_for_isfile_cong[of fs1 fs mv cwd d, OF same]
    show ?thesis unfolding fo by (simp add: C)
  qed
qed

lemma length_concat_at_most_one:
  "(\<And>x. length (g x) \<le> 1) \<Longrightarrow> length (concat (map g xs)) \<le> length xs"
proof (induction xs)
  case Nil
  then show ?case by simp
next
  case (Cons x xs)
  from Cons.prems[of x] Cons.IH[OF Cons.prems] show ?case by simp
qed

lemma length_command_for: "length (command_for mv cwd d fs f) \<le> 1"
  by (simp add: command_for_def split: sum.splits prod.splits)

lemma length_first_occurrences: "length (first_occurrences xs) = card (set xs)"
  using distinct_card[OF distinct_first_occurrences[of xs]]
  by (simp add: set_first_occurrences)

lemma spec_create_directory_isfile:
  "isfile (snd (spec_create_directory_with_permissions path src s)) p = isfile s p"
  by (auto simp: spec_create_directory_with_permissions_def isfile_def split: option.splits)

lemma demo_mover_create_directory:
  "create_directory_with_permissions (file_utils (demo_mover u d))
     = spec_create_directory_with_permissions"
  by (simp add: demo_mover_def demo_file_utils_def)

text \<open>
  C4, as the code has it.  Assume the directory ensure changes no regular file, and let
  the loop of \<open>move_media_files\<close> return the list \<open>move_commands\<close>, which is what
  \<open>_execute_move_commands\<close> receives.  The list is made of the commands of the
  distinct input path strings, in the order of their first occurrence, and each of them
  has at most one command: for the destination \<open>'array'\<close> the command
  \<open>(cache_file_name, user_path)\<close> if the cache copy exists, and none otherwise; for
  \<open>'cache'\<close> the command \<open>(user_file_name, cache_path)\<close> if the cache copy does
  not exist, whether or not the file exists at \<open>user_file_name\<close>, and none otherwise.
  So for \<open>'array'\<close> every command is that of an input file whose cache copy exists;
  for \<open>'cache'\<close> every command is that of an input file whose cache copy does not
  exist, and every such input file has its command; and there are at most as many
  commands as distinct input paths.
\<close>

theorem move_loop_commands_of_distinct_files:
  assumes "\<And>path src s p.
      isfile (snd (create_directory_with_permissions (file_utils mv) path src s)) p = isfile s p"
    and "move_loop mv cwd destination files ({}, []) fs = (Inr move_commands, fs')"
  shows "move_commands
           = concat (map (\<lambda>f. case get_paths mv cwd f of
                                 Inl e \<Rightarrow> []
                               | Inr (user_path, cache_path, cache_file_name, user_file_name) \<Rightarrow>
                                   if destination = ''array'' then
                                     (if isfile fs cache_file_name
                                      then [(cache_file_name, user_path)] else [])
                                   else if destination = ''cache'' then
                                     (if \<not> isfile fs cache_file_name
                                      then [(user_file_name, cache_path)] else [])
                                   else [])
                         (first_occurrences files))
       \<and> distinct (first_occurrences files) \<and> set (first_occurrences files) = set files
       \<and> (destination = ''array'' \<longrightarrow>
            (\<forall>c \<in> set move_commands. \<exists>f \<in> set files. \<exists>cp uf.
                get_paths mv cwd f = Inr (snd c, cp, fst c, uf) \<and> isfile fs (fst c)))
       \<and> (destination = ''cache'' \<longrightarrow>
            (\<forall>c \<in> set move_commands. \<exists>f \<in> set files. \<exists>u cf.
                get_paths mv cwd f = Inr (u, snd c, cf, fst c) \<and> \<not> isfile fs cf)
            \<and> (\<forall>f \<in> set files. \<forall>u cp cf uf.
                  get_paths mv cwd f = Inr (u, cp, cf, uf) \<and> \<not> isfile fs cf
                  \<longrightarrow> (uf, cp) \<in> set move_commands))
       \<and> length move_commands \<le> card (set files)"
proof -
  from move_loop_commands[OF assms]
  have cmds: "move_commands
                = concat (map (command_for mv cwd destination fs) (first_occurrences files))"
    by simp
  have unfolded: "command_for mv cwd destination fs
      = (\<lambda>f. case get_paths mv cwd f of
                Inl e \<Rightarrow> []
              | Inr (user_path, cache_path, cache_file_name, user_file_name) \<Rightarrow>
                  if destination = ''array'' then
                    (if isfile fs cache_file_name then [(cache_file_name, user_path)] else [])
                  else if destination = ''cache'' then
                    (if \<not> isfile fs cache_file_name then [(user_file_name, cache_path)] else [])
                  else [])"
    by (rule ext) (simp add: command_for_def)
  have mem: "c \<in> set move_commands
               \<longleftrightarrow> (\<exists>f \<in> set files. c \<in> set (command_for mv cwd destination fs f))" for c
    by (auto simp: cmds set_first_occurrences)
  have a: "\<exists>f \<in> set files. \<exists>cp uf.
              get_paths mv cwd f = Inr (snd c, cp, fst c, uf) \<and> isfile fs (fst c)"
    if "destination = ''array''" "c \<in> set move_commands" for c
  proof -
    from that mem[of c] obtain f where f: "f \<in> set files"
      "c \<in> set (command_for mv cwd destination fs f)" by blast
    from f(2) that(1) obtain u cp cf uf where
      "get_paths mv cwd f = Inr (u, cp, cf, uf)" "isfile fs cf" "c = (cf, u)"
      by (cases "get_paths mv cwd f") (auto simp: command_for_def split: if_splits)
    with f(1) show ?thesis by auto
  qed
  have b: "\<exists>f \<in> set files. \<exists>u cf.
              get_paths mv cwd f = Inr (u, snd c, cf, fst c) \<and> \<not> isfile fs cf"
    if "destination = ''cache''" "c \<in> set move_commands" for c
  proof -
    from that mem[of c] obtain f where f: "f \<in> set files"
      "c \<in> set (command_for mv cwd destination fs f)" by blast
    from f(2) that(1) obtain u cp cf uf where
      "get_paths mv cwd f = Inr (u, cp, cf, uf)" "\<not> isfile fs cf" "c = (uf, cp)"
      by (cases "get_paths mv cwd f") (auto simp: command_for_def split: if_splits)
    with f(1) show ?thesis by auto
  qed
  have c: "(uf, cp) \<in> set move_commands"
    if "destination = ''cache''" "f \<in> set files"
      "get_paths mv cwd f = Inr (u, cp, cf, uf)" "\<not> isfile fs cf" for f u cp cf uf
    using that mem[of "(uf, cp)"]
    by (auto simp: command_for_def intro!: bexI[of _ f])
  have "length move_commands \<le> length (first_occurrences files)"
    unfolding cmds by (rule length_concat_at_most_one) (rule length_command_for)
  then have l: "length move_commands \<le> card (set files)"
    by (simp add: length_first_occurrences)
  have e: "move_commands
           = concat (map (\<lambda>f. case get_paths mv cwd f of
                                 Inl e \<Rightarrow> []
                               | Inr (user_path, cache_path, cache_file_name, user_file_name) \<Rightarrow>
                                   if destination = ''array'' then
                                     (if isfile fs cache_file_name
                                      then [(cache_file_name, user_path)] else [])
                                   else if destination = ''cache'' then
                                     (if \<not> isfile fs cache_file_name
                                      then [(user_file_name, cache_path)] else [])
                                   else [])
                         (first_occurrences files))"
    using cmds unfolding unfolded .
  have d: "distinct (first_occurrences files)" "set (first_occurrences files) = set files"
    by (simp_all add: distinct_first_occurrences set_first_occurrences)
  have A: "destination = ''array'' \<longrightarrow>
            (\<forall>c \<in> set move_commands. \<exists>f \<in> set files. \<exists>cp uf.
                get_paths mv cwd f = Inr (snd c, cp, fst c, uf) \<and> isfile fs (fst c))"
    using a by blast
  have B: "destination = ''cache'' \<longrightarrow>
            (\<forall>c \<in> set move_commands. \<exists>f \<in> set files. \<exists>u cf.
                get_paths mv cwd f = Inr (u, snd c, cf, fst c) \<and> \<not> isfile fs cf)
            \<and> (\<forall>f \<in> set files. \<forall>u cp cf uf.
                  get_paths mv cwd f = Inr (u, cp, cf, uf) \<and> \<not> isfile fs cf
                  \<longrightarrow> (uf, cp) \<in> set move_commands)"
    using b c by blast
  show ?thesis
    using e d A B l by (intro conjI) assumption+
qed

theorem move_loop_commands_of_distinct_files_witness:
  "(\<forall>path src s p.
       isfile (snd (create_directory_with_permissions (file_utils (demo_mover True True))
                      path src s)) p = isfile s p)
   \<and> fst (move_loop (demo_mover True True) ''/'' ''array'' [test_movie, test_movie] ({}, [])
            both_tiers)
       = Inr [(''/mnt/cache/movies/test.mkv'', ''/mnt/user0/movies'')]
   \<and> first_occurrences [test_movie, test_movie] = [test_movie]
   \<and> get_paths (demo_mover True True) ''/'' test_movie
       = Inr (''/mnt/user0/movies'', ''/mnt/cache/movies'', ''/mnt/cache/movies/test.mkv'',
              ''/mnt/user0/movies/test.mkv'')
   \<and> isfile both_tiers ''/mnt/cache/movies/test.mkv''
   \<and> length [(''/mnt/cache/movies/test.mkv'', ''/mnt/user0/movies'')]
       \<le> card (set [test_movie, test_movie])"
proof -
  let ?L = "move_loop (demo_mover True True) ''/'' ''array'' [test_movie, test_movie] ({}, [])
              both_tiers"
  let ?cmds = "[(''/mnt/cache/movies/test.mkv'', ''/mnt/user0/movies'')]"
  have h1: "\<And>path src s p.
      isfile (snd (create_directory_with_permissions (file_utils (demo_mover True True))
                     path src s)) p = isfile s p"
    by (simp add: demo_mover_create_directory spec_create_directory_isfile)
  have f: "fst ?L = Inr ?cmds" by code_simp
  then have h2: "?L = (Inr ?cmds, snd ?L)" by (simp add: prod_eq_iff)
  have fo: "first_occurrences [test_movie, test_movie] = [test_movie]" by code_simp
  have gp: "get_paths (demo_mover True True) ''/'' test_movie
       = Inr (''/mnt/user0/movies'', ''/mnt/cache/movies'', ''/mnt/cache/movies/test.mkv'',
              ''/mnt/user0/movies/test.mkv'')"
    by code_simp
  note t = move_loop_commands_of_distinct_files[OF h1 h2]
  from t have "?cmds = concat (map (\<lambda>f. case get_paths (demo_mover True True) ''/'' f of
                                 Inl e \<Rightarrow> []
                               | Inr (user_path, cache_path, cache_file_name, user_file_name) \<Rightarrow>
                                   if ''array'' = ''array'' then
                                     (if isfile both_tiers cache_file_name
                                      then [(cache_file_name, user_path)] else [])
                                   else if ''array'' = ''cache'' then
                                     (if \<not> isfile both_tiers cache_file_name
                                      then [(user_file_name, cache_path)] else [])
                                   else [])
                         (first_occurrences [test_movie, test_movie]))"
    by (rule conjunct1)
  then have "isfile both_tiers ''/mnt/cache/movies/test.mkv''"
    unfolding fo by (simp add: gp split: if_splits)
  moreover from t have "length ?cmds \<le> card (set [test_movie, test_movie])"
    by blast
  ultimately show ?thesis using h1 f fo gp by blast
qed

text \<open>A file that exists on neither tier, to be moved to the cache: a command is built
  whose source is absent.\<close>

theorem move_media_files_absent_source_counterexample:
  "fst (move_media_files (demo_mover True True) ''/'' [test_movie] ''cache'' 2 2 (files_at []))
     = Inr [PrintMoveCommand (''/mnt/user0/movies/test.mkv'', ''/mnt/cache/movies'')]
   \<and> \<not> isfile (files_at []) ''/mnt/user0/movies/test.mkv''"
  by code_simp

text \<open>
  C3, as the code has it.  A destination that is neither \<open>'array'\<close> nor \<open>'cache'\<close>
  raises nothing.  \<open>filter_files\<close> returns the empty batch and removes nothing; on
  Unraid, given a non-empty input and an exclusion file that can be opened for writing,
  it writes to the exclusion file the cache file names of the distinct input files that
  are not skipped, and it changes nothing else; in every other case it leaves the file
  system as it is.  \<open>move_media_files\<close>, given files that have a directory part,
  builds no command and leaves the file system as it is; it prints nothing in debug mode
  and otherwise reports zero errors, unless the pool size \<open>max_concurrent_moves_cache\<close>
  is not positive.
\<close>

theorem unknown_destination_returns_normally:
  assumes "destination \<noteq> ''array''" and "destination \<noteq> ''cache''"
    and "is_unraid ff \<and> files \<noteq> [] \<longrightarrow> can_create_file fs (mover_cache_exclude_file ff)"
    and "\<forall>f \<in> set files_to_move. dirname f \<noteq> []"
  shows "filter_files ff files destination media_to_cache files_to_skip fs
           = (Inr [],
              if is_unraid ff \<and> files \<noteq> []
              then fs(mover_cache_exclude_file ff \<mapsto>
                     RegularFile
                       (concat (map (\<lambda>f. snd (get_cache_paths ff f) @ [CHR 0x0A])
                          (first_occurrences
                             (filter (\<lambda>f. \<not> skipped files_to_skip f) files)))))
              else fs)
       \<and> move_media_files mv cwd files_to_move destination max_concurrent_moves_array
           max_concurrent_moves_cache fs
         = (if debug mv then Inr []
            else if max_concurrent_moves_cache \<le> 0 then Inl ValueError
            else Inr [PrintFinished 0], fs)"
proof -
  let ?mtc = "case media_to_cache of None \<Rightarrow> [] | Some l \<Rightarrow> l"
  let ?content = "concat (map (\<lambda>f. snd (get_cache_paths ff f) @ [CHR 0x0A])
                    (first_occurrences (filter (\<lambda>f. \<not> skipped files_to_skip f) files)))"
  have filt: "filter_files ff files destination media_to_cache files_to_skip fs
           = (Inr [],
              if is_unraid ff \<and> files \<noteq> []
              then fs(mover_cache_exclude_file ff \<mapsto> RegularFile ?content)
              else fs)"
  proof (cases "files = []")
    case True
    then show ?thesis by (simp add: filter_files_def)
  next
    case False
    from filter_loop_unknown[OF assms(1,2)] obtain ex where
      loop: "filter_loop ff destination ?mtc files_to_skip files ({}, [], []) fs
               = (Inr ([], ex), fs)"
      by blast
    from filter_loop_general[of ff destination ?mtc files_to_skip files "{}" "[]" "[]" fs] loop
    have "ex = map (\<lambda>f. snd (get_cache_paths ff f))
                 (first_occurrences (filter (\<lambda>f. \<not> skipped files_to_skip f) files))"
      by auto
    then have content: "exclude_file_content ex = ?content"
      by (simp add: exclude_file_content_def comp_def)
    from assms(3) False
    have "is_unraid ff \<longrightarrow> can_create_file fs (mover_cache_exclude_file ff)" by simp
    from filter_files_eq[OF False loop this] False content show ?thesis by simp
  qed
  have "move_loop mv cwd destination files_to_move ({}, []) fs = (Inr [], fs)"
    using assms(1,2,4) by (rule move_loop_unknown)
  then have "move_media_files mv cwd files_to_move destination max_concurrent_moves_array
           max_concurrent_moves_cache fs
         = (if debug mv then Inr []
            else if max_concurrent_moves_cache \<le> 0 then Inl ValueError
            else Inr [PrintFinished 0], fs)"
    using assms(1) by (simp add: move_media_files_def execute_move_commands_def)
  with filt show ?thesis by (rule conjI)
qed

theorem unknown_destination_returns_normally_witness:
  "''tape'' \<noteq> ''array'' \<and> ''tape'' \<noteq> ''cache''
   \<and> can_create_file both_tiers (mover_cache_exclude_file test_filter)
   \<and> dirname test_movie \<noteq> []
   \<and> fst (filter_files test_filter [test_movie] ''tape'' None None both_tiers) = Inr []
   \<and> snd (filter_files test_filter [test_movie] ''tape'' None None both_tiers)
         ''/tmp/exclude.txt''
       = Some (RegularFile (''/mnt/cache/movies/test.mkv'' @ [CHR 0x0A]))
   \<and> snd (filter_files test_filter [test_movie] ''tape'' None None both_tiers)
         ''/mnt/cache/movies/test.mkv''
       = both_tiers ''/mnt/cache/movies/test.mkv''
   \<and> fst (move_media_files (demo_mover True False) ''/'' [test_movie] ''tape'' 0 4 both_tiers)
       = Inr [PrintFinished 0]"
proof -
  have h1: "''tape'' \<noteq> ''array''" and h2: "''tape'' \<noteq> ''cache''" by simp_all
  have d: "can_create_file both_tiers (mover_cache_exclude_file test_filter)" by code_simp
  then have h3: "is_unraid test_filter \<and> [test_movie] \<noteq> []
                 \<longrightarrow> can_create_file both_tiers (mover_cache_exclude_file test_filter)"
    by simp
  have n: "dirname test_movie \<noteq> []" by code_simp
  then have h4: "\<forall>f \<in> set [test_movie]. dirname f \<noteq> []" by simp
  have dbg: "\<not> debug (demo_mover True False)" by (simp add: demo_mover_def)
  have u: "is_unraid test_filter" and x: "mover_cache_exclude_file test_filter = ''/tmp/exclude.txt''"
    by (simp_all add: test_filter_def)
  have c: "concat (map (\<lambda>f. snd (get_cache_paths test_filter f) @ [CHR 0x0A])
             (first_occurrences (filter (\<lambda>f. \<not> skipped None f) [test_movie])))
           = ''/mnt/cache/movies/test.mkv'' @ [CHR 0x0A]"
    by code_simp
  note t = unknown_destination_returns_normally[OF h1 h2 h3 h4,
      of None None "demo_mover True False" "''/''" 0 4]
  from t have "filter_files test_filter [test_movie] ''tape'' None None both_tiers
           = (Inr [], both_tiers(''/tmp/exclude.txt'' \<mapsto>
                        RegularFile (''/mnt/cache/movies/test.mkv'' @ [CHR 0x0A])))"
    unfolding c using u x by simp
  moreover from t dbg
  have "fst (move_media_files (demo_mover True False) ''/'' [test_movie] ''tape'' 0 4 both_tiers)
           = Inr [PrintFinished 0]"
    by simp
  ultimately show ?thesis using h1 h2 d n by simp
qed

text \<open>Both functions return normally for the destination \<open>'tape'\<close>.\<close>

theorem unknown_destination_not_fatal_counterexample:
  "fst (filter_files plain_filter [test_movie] ''tape'' None None both_tiers) = Inr []
   \<and> fst (move_media_files (demo_mover False True) ''/'' [test_movie] ''tape'' 1 1 both_tiers)
       = Inr []"
  by code_simp

text \<open>The loop of \<open>move_media_files\<close> changes the file system only through the
  directory ensure, and does not depend on \<open>move_file\<close>.\<close>

lemma get_move_command_frame:
  assumes cd: "\<And>path src s p content.
      (snd (create_directory_with_permissions (file_utils mv) path src s) p
         = Some (RegularFile content)) = (s p = Some (RegularFile content))"
    and "get_move_command mv d cf u uf cp fs = (r, fs1)"
  shows "(fs1 p = Some (RegularFile content)) = (fs p = Some (RegularFile content))"
proof (cases "d = ''array''")
  case True
  obtain r0 s where c: "create_directory_with_permissions (file_utils mv) u cf fs = (r0, s)"
    by (cases "create_directory_with_permissions (file_utils mv) u cf fs")
  with cd[of u cf fs p content] assms(2) True show ?thesis
    by (auto simp: get_move_command_def split: sum.splits)
next
  case na: False
  show ?thesis
  proof (cases "d = ''cache''")
    case True
    obtain r0 s where c: "create_directory_with_permissions (file_utils mv) cp uf fs = (r0, s)"
      by (cases "create_directory_with_permissions (file_utils mv) cp uf fs")
    with cd[of cp uf fs p content] assms(2) True show ?thesis
      by (auto simp: get_move_command_def split: sum.splits)
  next
    case False
    with na assms(2) show ?thesis by (auto simp: get_move_command_def)
  qed
qed

lemma move_loop_frame:
  assumes cd: "\<And>path src s p content.
      (snd (create_directory_with_permissions (file_utils mv) path src s) p
         = Some (RegularFile content)) = (s p = Some (RegularFile content))"
    and "move_loop mv cwd d files (P, C) fs = (r, fs')"
  shows "(fs' p = Some (RegularFile content)) = (fs p = Some (RegularFile content))"
  using assms(2)
proof (induction files arbitrary: P C fs)
  case Nil
  then show ?case by simp
next
  case (Cons g files)
  show ?case
  proof (cases "g \<in> P")
    case True
    with Cons show ?thesis by simp
  next
    case False
    show ?thesis
    proof (cases "get_paths mv cwd g")
      case (Inl e)
      with Cons.prems False show ?thesis by simp
    next
      case (Inr q)
      obtain u cp cf uf where q: "q = (u, cp, cf, uf)" by (cases q)
      obtain r1 fs1 where gm: "get_move_command mv d cf u uf cp fs = (r1, fs1)"
        by (cases "get_move_command mv d cf u uf cp fs")
      note fr = get_move_command_frame[OF cd gm, of p content]
      show ?thesis
      proof (cases r1)
        case (Inl e)
        with Cons.prems False Inr q gm fr show ?thesis by simp
      next
        case (Inr m)
        with Cons.prems False \<open>get_paths mv cwd g = Inr q\<close> q gm
        have "move_loop mv cwd d files
                (insert g P, case m of None \<Rightarrow> C | Some c \<Rightarrow> C @ [c]) fs1 = (r, fs')"
          by simp
        from Cons.IH[OF this] fr show ?thesis by simp
      qed
    qed
  qed
qed

lemma get_paths_move_file_update:
  "get_paths (mv\<lparr>file_utils := (file_utils mv)\<lparr>move_file := m\<rparr>\<rparr>) = get_paths mv"
  by (intro ext) (simp add: get_paths_def Let_def split: sum.splits)

lemma get_move_command_move_file_update:
  "get_move_command (mv\<lparr>file_utils := (file_utils mv)\<lparr>move_file := m\<rparr>\<rparr>) = get_move_command mv"
  by (intro ext) (simp add: get_move_command_def)

lemma move_loop_move_file_update:
  "move_loop (mv\<lparr>file_utils := (file_utils mv)\<lparr>move_file := m\<rparr>\<rparr>) cwd d files (P, C) fs
     = move_loop mv cwd d files (P, C) fs"
  by (induction files arbitrary: P C fs)
     (simp_all add: get_paths_move_file_update get_move_command_move_file_update
        split: sum.splits prod.splits)

lemma move_media_files_debug:
  "debug mv \<Longrightarrow>
   move_media_files mv cwd files d a c fs =
     (case move_loop mv cwd d files ({}, []) fs of
        (Inl e, fs') \<Rightarrow> (Inl e, fs')
      | (Inr cmds, fs') \<Rightarrow> (Inr (map PrintMoveCommand cmds), fs'))"
  by (simp add: move_media_files_def execute_move_commands_def split: prod.splits sum.splits)

lemma move_media_files_debug_frame:
  assumes "debug mv"
    and cd: "\<And>path src s p content.
      (snd (create_directory_with_permissions (file_utils mv) path src s) p
         = Some (RegularFile content)) = (s p = Some (RegularFile content))"
  shows "(snd (move_media_files mv cwd files d a c fs) p = Some (RegularFile content))
           = (fs p = Some (RegularFile content))"
proof -
  obtain r fs' where l: "move_loop mv cwd d files ({}, []) fs = (r, fs')"
    by (cases "move_loop mv cwd d files ({}, []) fs")
  from move_loop_frame[OF cd l, of p content] l assms(1) show ?thesis
    by (simp add: move_media_files_debug split: sum.splits)
qed

text \<open>Whether or not the program runs in debug mode, the file system that the loop of
  \<open>move_media_files\<close> leaves is the one left by the calls of the directory ensure for
  the distinct files, in the order of their first occurrence; for the destinations
  \<open>'array'\<close> and \<open>'cache'\<close> there is one call for each of them.\<close>

lemma move_loop_ensure:
  assumes "\<forall>f \<in> set files. dirname f \<noteq> []"
  shows "snd (move_loop mv cwd d files (P, C) fs)
           = snd (ensure_all (file_utils mv)
                    (concat (map (ensure_call mv cwd d)
                       (first_occurrences (filter (\<lambda>f. f \<notin> P) files)))) fs)"
  using assms
proof (induction files arbitrary: P C fs)
  case Nil
  then show ?case by (simp add: first_occurrences_Nil)
next
  case (Cons g files)
  from Cons.prems have rest: "\<forall>f \<in> set files. dirname f \<noteq> []" and "dirname g \<noteq> []"
    by simp_all
  then obtain u cp cf uf where gp: "get_paths mv cwd g = Inr (u, cp, cf, uf)"
    using get_paths_total by blast
  show ?case
  proof (cases "g \<in> P")
    case True
    with Cons.IH[OF rest, of P C fs] show ?thesis by simp
  next
    case False
    have fo: "first_occurrences (filter (\<lambda>f. f \<notin> P) (g # files))
                = g # first_occurrences (filter (\<lambda>f. f \<notin> insert g P) files)"
    proof -
      have "filter (\<lambda>z. z \<noteq> g) (filter (\<lambda>f. f \<notin> P) files)
              = filter (\<lambda>f. f \<notin> insert g P) files"
        by (auto intro: filter_cong)
      then show ?thesis
        using False by (simp add: first_occurrences_Cons first_occurrences_filter[symmetric])
    qed
    note IH = Cons.IH[OF rest, of "insert g P"]
    show ?thesis
    proof (cases "d = ''array''")
      case True
      then have ec: "ensure_call mv cwd ''array'' g = [(u, cf)]"
        by (simp add: ensure_call_def gp)
      show ?thesis
        using False gp True IH unfolding fo
        by (simp add: ec get_move_command_def split: prod.splits sum.splits)
    next
      case na: False
      show ?thesis
      proof (cases "d = ''cache''")
        case True
        with na have ec: "ensure_call mv cwd ''cache'' g = [(cp, uf)]"
          by (simp add: ensure_call_def gp)
        show ?thesis
          using False gp True IH unfolding fo
          by (simp add: ec get_move_command_def split: prod.splits sum.splits)
      next
        case False
        with na have ec: "ensure_call mv cwd d g = []"
          by (simp add: ensure_call_def gp)
        show ?thesis
          using \<open>g \<notin> P\<close> gp na False IH unfolding fo
          by (simp add: ec get_move_command_def)
      qed
    qed
  qed
qed

lemma length_concat_exactly_one:
  "(\<And>x. x \<in> set xs \<Longrightarrow> length (g x) = 1) \<Longrightarrow> length (concat (map g xs)) = length xs"
  by (induction xs) simp_all

lemma length_ensure_calls:
  assumes "destination = ''array'' \<or> destination = ''cache''"
    and "\<forall>f \<in> set files. dirname f \<noteq> []"
  shows "length (concat (map (ensure_call mv cwd destination) (first_occurrences files)))
           = card (set files)"
proof -
  have "length (ensure_call mv cwd destination f) = 1" if "f \<in> set (first_occurrences files)" for f
  proof -
    from that assms(2) have "dirname f \<noteq> []" by (simp add: set_first_occurrences)
    then obtain u cp cf uf where "get_paths mv cwd f = Inr (u, cp, cf, uf)"
      using get_paths_total by blast
    with assms(1) show ?thesis by (auto simp: ensure_call_def)
  qed
  then show ?thesis
    by (simp add: length_concat_exactly_one length_first_occurrences)
qed

text \<open>
  C2, as the code has it.  In debug mode, provided the directory ensure
  \<open>create_directory_with_permissions\<close> changes no regular file, \<open>move_media_files\<close>
  leaves every regular file where it is and with its content, whether it returns or
  raises; it never calls \<open>move_file\<close>, since replacing that function changes nothing;
  and when it returns, what it printed is the list of move commands, with no count of
  errors.  The directory ensure is not suppressed: given files that have a directory
  part, the file system after the run is the one left by the calls of the directory
  ensure for the distinct files, in the order of their first occurrence and up to the
  first call that raises; for the destination \<open>'array'\<close> the call for a file is
  \<open>create_directory_with_permissions(user_path, cache_file_name)\<close>, for \<open>'cache'\<close> it
  is \<open>create_directory_with_permissions(cache_path, user_file_name)\<close>, so that there
  are as many calls as distinct files, and for any other destination there is none.
\<close>

theorem move_media_files_debug_moves_nothing:
  assumes "debug mv"
    and "\<And>path src s p content.
      (snd (create_directory_with_permissions (file_utils mv) path src s) p
         = Some (RegularFile content)) = (s p = Some (RegularFile content))"
  shows "(\<forall>p content.
            (snd (move_media_files mv cwd files destination max_concurrent_moves_array
                    max_concurrent_moves_cache fs) p = Some (RegularFile content))
              = (fs p = Some (RegularFile content)))
       \<and> (\<forall>m. move_media_files (mv\<lparr>file_utils := (file_utils mv)\<lparr>move_file := m\<rparr>\<rparr>) cwd files
                 destination max_concurrent_moves_array max_concurrent_moves_cache fs
               = move_media_files mv cwd files destination max_concurrent_moves_array
                   max_concurrent_moves_cache fs)
       \<and> (\<forall>outs. fst (move_media_files mv cwd files destination max_concurrent_moves_array
                         max_concurrent_moves_cache fs) = Inr outs
             \<longrightarrow> (\<exists>cmds. fst (move_loop mv cwd destination files ({}, []) fs) = Inr cmds
                         \<and> outs = map PrintMoveCommand cmds))
       \<and> ((\<forall>f \<in> set files. dirname f \<noteq> []) \<longrightarrow>
            snd (move_media_files mv cwd files destination max_concurrent_moves_array
                   max_concurrent_moves_cache fs)
              = snd (ensure_all (file_utils mv)
                       (concat (map (\<lambda>f. case get_paths mv cwd f of
                                           Inl e \<Rightarrow> []
                                         | Inr (user_path, cache_path, cache_file_name,
                                                user_file_name) \<Rightarrow>
                                             if destination = ''array''
                                             then [(user_path, cache_file_name)]
                                             else if destination = ''cache''
                                             then [(cache_path, user_file_name)]
                                             else [])
                                    (first_occurrences files))) fs)
            \<and> length (concat (map (\<lambda>f. case get_paths mv cwd f of
                                           Inl e \<Rightarrow> []
                                         | Inr (user_path, cache_path, cache_file_name,
                                                user_file_name) \<Rightarrow>
                                             if destination = ''array''
                                             then [(user_path, cache_file_name)]
                                             else if destination = ''cache''
                                             then [(cache_path, user_file_name)]
                                             else [])
                                    (first_occurrences files)))
                = (if destination = ''array'' \<or> destination = ''cache''
                   then card (set files) else 0))"
proof -
  let ?R = "move_media_files mv cwd files destination max_concurrent_moves_array
              max_concurrent_moves_cache fs"
  have "debug (mv\<lparr>file_utils := (file_utils mv)\<lparr>move_file := m\<rparr>\<rparr>)" for m
    using assms(1) by simp
  then have same: "move_media_files (mv\<lparr>file_utils := (file_utils mv)\<lparr>move_file := m\<rparr>\<rparr>) cwd files
                 destination max_concurrent_moves_array max_concurrent_moves_cache fs
               = ?R" for m
    using assms(1)
    by (simp only: move_media_files_debug move_loop_move_file_update)
  have printed: "\<exists>cmds. fst (move_loop mv cwd destination files ({}, []) fs) = Inr cmds
                         \<and> outs = map PrintMoveCommand cmds"
    if "fst ?R = Inr outs" for outs
    using that assms(1)
    by (auto simp: move_media_files_debug split: prod.splits sum.splits)
  have unfolded: "(\<lambda>f. case get_paths mv cwd f of
                          Inl e \<Rightarrow> []
                        | Inr (user_path, cache_path, cache_file_name, user_file_name) \<Rightarrow>
                            if destination = ''array'' then [(user_path, cache_file_name)]
                            else if destination = ''cache'' then [(cache_path, user_file_name)]
                            else [])
                  = ensure_call mv cwd destination"
    by (rule ext) (simp add: ensure_call_def)
  have ensure: "snd ?R = snd (ensure_all (file_utils mv)
                   (concat (map (ensure_call mv cwd destination) (first_occurrences files))) fs)
      \<and> length (concat (map (ensure_call mv cwd destination) (first_occurrences files)))
          = (if destination = ''array'' \<or> destination = ''cache'' then card (set files) else 0)"
    if d: "\<forall>f \<in> set files. dirname f \<noteq> []"
  proof
    have "snd ?R = snd (move_loop mv cwd destination files ({}, []) fs)"
      using assms(1) by (simp add: move_media_files_debug split: prod.splits sum.splits)
    with move_loop_ensure[OF d, of mv cwd destination "{}" "[]" fs]
    show "snd ?R = snd (ensure_all (file_utils mv)
                   (concat (map (ensure_call mv cwd destination) (first_occurrences files))) fs)"
      by simp
  next
    show "length (concat (map (ensure_call mv cwd destination) (first_occurrences files)))
          = (if destination = ''array'' \<or> destination = ''cache'' then card (set files) else 0)"
    proof (cases "destination = ''array'' \<or> destination = ''cache''")
      case True
      with length_ensure_calls[OF True d] show ?thesis by simp
    next
      case False
      then have "ensure_call mv cwd destination f = []" for f
        by (simp add: ensure_call_def split: sum.splits prod.splits)
      with False show ?thesis by simp
    qed
  qed
  show ?thesis
    unfolding unfolded
    using same printed ensure move_media_files_debug_frame[OF assms] by blast
qed

lemma spec_create_directory_regular:
  "(snd (spec_create_directory_with_permissions path src s) p = Some (RegularFile content))
     = (s p = Some (RegularFile content))"
  by (auto simp: spec_create_directory_with_permissions_def split: option.splits)

theorem move_media_files_debug_moves_nothing_witness:
  "debug (demo_mover True True)
   \<and> (\<forall>path src s p content.
         (snd (create_directory_with_permissions (file_utils (demo_mover True True)) path src s) p
            = Some (RegularFile content)) = (s p = Some (RegularFile content)))
   \<and> dirname test_movie \<noteq> []
   \<and> both_tiers ''/mnt/cache/movies/test.mkv'' = Some (RegularFile ''data'')
   \<and> snd (move_media_files (demo_mover True True) ''/'' [test_movie] ''array'' 2 2 both_tiers)
         ''/mnt/cache/movies/test.mkv'' = Some (RegularFile ''data'')
   \<and> fst (move_media_files (demo_mover True True) ''/'' [test_movie] ''array'' 2 2 both_tiers)
       = Inr [PrintMoveCommand (''/mnt/cache/movies/test.mkv'', ''/mnt/user0/movies'')]
   \<and> snd (move_media_files (demo_mover True True) ''/'' [test_movie] ''array'' 2 2 both_tiers)
       = snd (ensure_all (file_utils (demo_mover True True))
                [(''/mnt/user0/movies'', ''/mnt/cache/movies/test.mkv'')] both_tiers)"
proof -
  have h1: "debug (demo_mover True True)" by (simp add: demo_mover_def)
  have h2: "\<And>path src s p content.
         (snd (create_directory_with_permissions (file_utils (demo_mover True True)) path src s) p
            = Some (RegularFile content)) = (s p = Some (RegularFile content))"
    by (simp add: demo_mover_create_directory spec_create_directory_regular)
  have n: "dirname test_movie \<noteq> []" by code_simp
  then have h3: "\<forall>f \<in> set [test_movie]. dirname f \<noteq> []" by simp
  have b: "both_tiers ''/mnt/cache/movies/test.mkv'' = Some (RegularFile ''data'')"
    by code_simp
  have o: "fst (move_media_files (demo_mover True True) ''/'' [test_movie] ''array'' 2 2 both_tiers)
       = Inr [PrintMoveCommand (''/mnt/cache/movies/test.mkv'', ''/mnt/user0/movies'')]"
    by code_simp
  have fo: "first_occurrences [test_movie] = [test_movie]" by code_simp
  have gp: "get_paths (demo_mover True True) ''/'' test_movie
       = Inr (''/mnt/user0/movies'', ''/mnt/cache/movies'', ''/mnt/cache/movies/test.mkv'',
              ''/mnt/user0/movies/test.mkv'')"
    by code_simp
  note t = move_media_files_debug_moves_nothing[OF h1 h2,
      of "''/''" "[test_movie]" "''array''" 2 2 both_tiers]
  from t b
  have r: "snd (move_media_files (demo_mover True True) ''/'' [test_movie] ''array'' 2 2 both_tiers)
         ''/mnt/cache/movies/test.mkv'' = Some (RegularFile ''data'')"
    by simp
  from t h3
  have "snd (move_media_files (demo_mover True True) ''/'' [test_movie] ''array'' 2 2 both_tiers)
       = snd (ensure_all (file_utils (demo_mover True True))
                (concat (map (\<lambda>f. case get_paths (demo_mover True True) ''/'' f of
                                     Inl e \<Rightarrow> []
                                   | Inr (user_path, cache_path, cache_file_name,
                                          user_file_name) \<Rightarrow>
                                       if ''array'' = ''array''
                                       then [(user_path, cache_file_name)]
                                       else if ''array'' = ''cache''
                                       then [(cache_path, user_file_name)]
                                       else [])
                              (first_occurrences [test_movie]))) both_tiers)"
    by blast
  then have e: "snd (move_media_files (demo_mover True True) ''/'' [test_movie] ''array'' 2 2 both_tiers)
       = snd (ensure_all (file_utils (demo_mover True True))
                [(''/mnt/user0/movies'', ''/mnt/cache/movies/test.mkv'')] both_tiers)"
    unfolding fo by (simp add: gp)
  from h1 h2 n b r o e show ?thesis by blast
qed

text \<open>With the directory ensure that the spec describes, a debug run towards the cache
  creates the cache directory of the file, which did not exist before.\<close>

theorem move_media_files_debug_creates_directory_counterexample:
  "debug (demo_mover True True)
   \<and> files_at [''/mnt/user0/movies/test.mkv''] ''/mnt/cache/movies'' = None
   \<and> snd (move_media_files (demo_mover True True) ''/'' [test_movie] ''cache'' 2 2
            (files_at [''/mnt/user0/movies/test.mkv''])) ''/mnt/cache/movies''
       = Some (Directory [])"
  by code_simp

section \<open>The capacity gate\<close>

text \<open>
  C5.  Let the decision pass return the batch \<open>media_files_filtered\<close>, and let
  \<open>FileUtils\<close> report the size \<open>total_size\<close> of the batch and the free space
  \<open>free_space\<close> of the destination, each with its unit.  When both units are known,
  the free space is not negative and the size of the batch exceeds it, then outside
  debug mode the method raises \<open>SystemExit\<close> with the message of \<open>sys.exit\<close> and
  leaves the file system as the decision pass left it, without calling
  \<open>move_media_files\<close>; in debug mode (which the mover shares) it goes on to
  \<open>move_media_files\<close>, printing the shortage before the moves, and no regular file
  is moved, changed or deleted, given a directory ensure that changes no regular file.
  A batch whose size is not positive returns normally with "Nothing to move".
\<close>

theorem check_free_space_and_move_files_gate:
  assumes "filter_files (app_file_filter app) media_files destination
             (Some (app_media_to_cache app)) (Some (set (app_files_to_skip app))) fs
           = (Inr media_files_filtered, fs1)"
    and "get_total_size_of_files (app_file_utils app) media_files_filtered fs1
           = (total_size, total_size_unit)"
    and "get_free_space (app_file_utils app)
           (if destination = ''cache'' then cache_dir' else real_source') fs1
           = (free_space, free_space_unit)"
    and "debug (app_file_mover app) = app_debug app"
    and "\<And>path src s p content.
      (snd (create_directory_with_permissions (file_utils (app_file_mover app)) path src s) p
         = Some (RegularFile content)) = (s p = Some (RegularFile content))"
  shows "(size_multipliers total_size_unit = Some mt \<and> size_multipliers free_space_unit = Some mf
            \<and> 0 \<le> free_space \<and> total_size * 1024 ^ mt > free_space * 1024 ^ mf
            \<and> \<not> app_debug app
          \<longrightarrow> check_free_space_and_move_files app cwd media_files destination real_source'
                cache_dir' fs
              = (Inl (SystemExit (''Not enough space on '' @ destination @ '' drive.'')), fs1))
       \<and> (size_multipliers total_size_unit = Some mt \<and> size_multipliers free_space_unit = Some mf
            \<and> 0 \<le> free_space \<and> total_size * 1024 ^ mt > free_space * 1024 ^ mf
            \<and> app_debug app
          \<longrightarrow> check_free_space_and_move_files app cwd media_files destination real_source'
                cache_dir' fs
              = (case move_media_files (app_file_mover app) cwd media_files_filtered destination
                        (app_max_concurrent_moves_array app)
                        (app_max_concurrent_moves_cache app) fs1 of
                   (Inl e, fs2) \<Rightarrow> (Inl e, fs2)
                 | (Inr outs, fs2) \<Rightarrow>
                     (Inr ([PrintTotalSize destination total_size total_size_unit,
                            PrintFreeSpace destination free_space free_space_unit,
                            PrintNotEnoughSpace destination, PrintMoving destination] @ outs),
                      fs2))
            \<and> (\<forall>p content.
                  (snd (check_free_space_and_move_files app cwd media_files destination
                          real_source' cache_dir' fs) p = Some (RegularFile content))
                    = (fs1 p = Some (RegularFile content))))
       \<and> (total_size \<le> 0
          \<longrightarrow> check_free_space_and_move_files app cwd media_files destination real_source'
                cache_dir' fs
              = (Inr [PrintNothingToMove destination], fs1))"
proof -
  let ?R = "check_free_space_and_move_files app cwd media_files destination real_source'
              cache_dir' fs"
  let ?M = "move_media_files (app_file_mover app) cwd media_files_filtered destination
              (app_max_concurrent_moves_array app) (app_max_concurrent_moves_cache app) fs1"
  have pos: "total_size > 0"
    if "0 \<le> free_space" "total_size * 1024 ^ mt > free_space * 1024 ^ mf"
  proof -
    have "0 \<le> free_space * 1024 ^ mf" using that(1) by simp
    with that(2) have "0 < total_size * 1024 ^ mt" by linarith
    then show ?thesis by (simp add: zero_less_mult_iff)
  qed
  have stop: "?R = (Inl (SystemExit (''Not enough space on '' @ destination @ '' drive.'')), fs1)"
    if "size_multipliers total_size_unit = Some mt" "size_multipliers free_space_unit = Some mf"
      "0 \<le> free_space" "total_size * 1024 ^ mt > free_space * 1024 ^ mf" "\<not> app_debug app"
    using that pos[OF that(3,4)] assms(1,2,3)
    by (simp add: check_free_space_and_move_files_def)
  have go: "?R = (case ?M of
                   (Inl e, fs2) \<Rightarrow> (Inl e, fs2)
                 | (Inr outs, fs2) \<Rightarrow>
                     (Inr ([PrintTotalSize destination total_size total_size_unit,
                            PrintFreeSpace destination free_space free_space_unit,
                            PrintNotEnoughSpace destination, PrintMoving destination] @ outs),
                      fs2))"
    if "size_multipliers total_size_unit = Some mt" "size_multipliers free_space_unit = Some mf"
      "0 \<le> free_space" "total_size * 1024 ^ mt > free_space * 1024 ^ mf" "app_debug app"
    using that pos[OF that(3,4)] assms(1,2,3)
    by (simp add: check_free_space_and_move_files_def split: prod.splits sum.splits)
  have frame: "(snd ?R p = Some (RegularFile content)) = (fs1 p = Some (RegularFile content))"
    if "size_multipliers total_size_unit = Some mt" "size_multipliers free_space_unit = Some mf"
      "0 \<le> free_space" "total_size * 1024 ^ mt > free_space * 1024 ^ mf" "app_debug app"
    for p content
  proof -
    have d: "debug (app_file_mover app)" using that(5) assms(4) by simp
    have "snd ?R = snd ?M"
      unfolding go[OF that] by (simp split: prod.splits sum.splits)
    then show ?thesis
      using move_media_files_debug_frame[OF d assms(5)] by simp
  qed
  have zero_size: "?R = (Inr [PrintNothingToMove destination], fs1)" if "total_size \<le> 0"
    using that assms(1,2) by (simp add: check_free_space_and_move_files_def)
  show ?thesis
  proof (intro conjI impI allI)
    assume "size_multipliers total_size_unit = Some mt \<and> size_multipliers free_space_unit = Some mf
            \<and> 0 \<le> free_space \<and> total_size * 1024 ^ mt > free_space * 1024 ^ mf
            \<and> \<not> app_debug app"
    then show "?R = (Inl (SystemExit (''Not enough space on '' @ destination @ '' drive.'')), fs1)"
      using stop by simp
  next
    assume a: "size_multipliers total_size_unit = Some mt \<and> size_multipliers free_space_unit = Some mf
            \<and> 0 \<le> free_space \<and> total_size * 1024 ^ mt > free_space * 1024 ^ mf
            \<and> app_debug app"
    then show "?R = (case ?M of
                   (Inl e, fs2) \<Rightarrow> (Inl e, fs2)
                 | (Inr outs, fs2) \<Rightarrow>
                     (Inr ([PrintTotalSize destination total_size total_size_unit,
                            PrintFreeSpace destination free_space free_space_unit,
                            PrintNotEnoughSpace destination, PrintMoving destination] @ outs),
                      fs2))"
      by (intro go) simp_all
    fix p content
    from a show "(snd ?R p = Some (RegularFile content)) = (fs1 p = Some (RegularFile content))"
      by (intro frame) simp_all
  next
    assume "total_size \<le> 0"
    then show "?R = (Inr [PrintNothingToMove destination], fs1)" by (rule zero_size)
  qed
qed

theorem check_free_space_and_move_files_gate_witness:
  "fst (filter_files (app_file_filter (demo_app False (5, ''GB'') (3, ''GB''))) [test_movie] ''cache''
          (Some (app_media_to_cache (demo_app False (5, ''GB'') (3, ''GB''))))
          (Some (set (app_files_to_skip (demo_app False (5, ''GB'') (3, ''GB''))))) array_only)
     = Inr [test_movie]
   \<and> size_multipliers ''GB'' = Some 2
   \<and> (5::real) * 1024 ^ 2 > 3 * 1024 ^ 2
   \<and> \<not> app_debug (demo_app False (5, ''GB'') (3, ''GB''))
   \<and> fst (check_free_space_and_move_files (demo_app False (5, ''GB'') (3, ''GB'')) ''/''
            [test_movie] ''cache'' ''/mnt/user/'' ''/mnt/cache/'' array_only)
       = Inl (SystemExit ''Not enough space on cache drive.'')
   \<and> snd (check_free_space_and_move_files (demo_app False (5, ''GB'') (3, ''GB'')) ''/''
            [test_movie] ''cache'' ''/mnt/user/'' ''/mnt/cache/'' array_only)
         ''/mnt/user0/movies/test.mkv''
       = Some (RegularFile ''data'')"
proof -
  let ?A = "demo_app False (5, ''GB'') (3, ''GB'')"
  let ?F = "filter_files test_filter [test_movie] ''cache'' (Some []) (Some (set [])) array_only"
  have sel: "app_file_filter ?A = test_filter" "app_media_to_cache ?A = []"
    "app_files_to_skip ?A = []" "\<not> app_debug ?A"
    by (simp_all add: demo_app_def)
  have f: "fst ?F = Inr [test_movie]" by code_simp
  have s: "snd ?F ''/mnt/user0/movies/test.mkv'' = Some (RegularFile ''data'')" by code_simp
  have h1: "filter_files (app_file_filter ?A) [test_movie] ''cache''
              (Some (app_media_to_cache ?A)) (Some (set (app_files_to_skip ?A))) array_only
            = (Inr [test_movie], snd ?F)"
    using f by (simp add: sel prod_eq_iff)
  have h2: "get_total_size_of_files (app_file_utils ?A) [test_movie] (snd ?F) = (5, ''GB'')"
    by (simp add: demo_app_def demo_file_utils_def)
  have h3: "get_free_space (app_file_utils ?A)
              (if ''cache'' = ''cache'' then ''/mnt/cache/'' else ''/mnt/user/'') (snd ?F)
            = (3, ''GB'')"
    by (simp add: demo_app_def demo_file_utils_def)
  have h4: "debug (app_file_mover ?A) = app_debug ?A"
    by (simp add: demo_app_def demo_mover_def)
  have h5: "\<And>path src s p content.
      (snd (create_directory_with_permissions (file_utils (app_file_mover ?A)) path src s) p
         = Some (RegularFile content)) = (s p = Some (RegularFile content))"
    by (simp add: demo_app_def demo_file_utils_def spec_create_directory_regular)
  have m: "size_multipliers ''GB'' = Some 2" by (simp add: size_multipliers_def)
  have g: "(5::real) * 1024 ^ 2 > 3 * 1024 ^ 2" by simp
  from check_free_space_and_move_files_gate[OF h1 h2 h3 h4 h5, of 2 2 "''/''"] m g sel(4)
  have "check_free_space_and_move_files ?A ''/'' [test_movie] ''cache'' ''/mnt/user/''
          ''/mnt/cache/'' array_only
        = (Inl (SystemExit ''Not enough space on cache drive.''), snd ?F)"
    by simp
  with f s m g sel show ?thesis by simp
qed

section \<open>Normalised absolute paths\<close>

text \<open>Facts about \<open>posixpath\<close> on paths of the form \<open>/c\<^sub>1/\<dots>/c\<^sub>n\<close> whose
  components are neither empty nor \<open>.\<close> nor \<open>..\<close> and hold no slash.\<close>

lemma slashed_simps [simp]:
  "slashed [] = []" "slashed (c # cs) = CHR ''/'' # c @ slashed cs"
  by (simp_all add: slashed_def)

lemma slashed_append: "slashed (xs @ ys) = slashed xs @ slashed ys"
  by (simp add: slashed_def)

lemma str_split_append_no_sep:
  "sep \<notin> set s \<Longrightarrow>
   str_split sep (s @ t) = (s @ hd (str_split sep t)) # tl (str_split sep t)"
  by (induction s) (auto, cases t, auto)

lemma str_split_slashed:
  assumes "\<forall>c \<in> set comps. CHR ''/'' \<notin> set c"
  shows "str_split CHR ''/'' (slashed comps) = [] # comps"
    and "str_split CHR ''/'' (slashed comps @ ''/'') = [] # comps @ [[]]"
  using assms by (induction comps) (simp_all add: str_split_append_no_sep)

lemma foldl_normpath_step_normal:
  "\<forall>c \<in> set comps. normal_component c \<Longrightarrow>
   foldl (normpath_step n) acc comps = acc @ comps"
proof (induction comps arbitrary: acc)
  case Nil
  then show ?case by simp
next
  case (Cons c comps)
  from Cons.prems have "normpath_step n acc c = acc @ [c]"
    by (auto simp: normpath_step_def normal_component_def)
  with Cons show ?case by simp
qed

lemma join_slashed: "comps \<noteq> [] \<Longrightarrow> CHR ''/'' # str_join ''/'' comps = slashed comps"
  by (induction comps rule: induct_list012) simp_all

lemma normpath_slashed:
  assumes "comps \<noteq> []" and "\<forall>c \<in> set comps. normal_component c"
  shows "normpath (slashed comps) = slashed comps"
    and "normpath (slashed comps @ ''/'') = slashed comps"
proof -
  obtain c cs where comps: "comps = c # cs" using assms(1) by (cases comps) auto
  with assms(2) obtain x xs where c: "c = x # xs" "x \<noteq> CHR ''/''"
    by (cases c) (auto simp: normal_component_def)
  have ns: "\<forall>c \<in> set comps. CHR ''/'' \<notin> set c"
    using assms(2) by (auto simp: normal_component_def)
  have f1: "foldl (normpath_step 1) [] ([] # comps) = comps"
    using foldl_normpath_step_normal[OF assms(2), of 1 "[]"]
    by (simp add: normpath_step_def)
  have f2: "foldl (normpath_step 1) [] ([] # comps @ [[]]) = comps"
    using foldl_normpath_step_normal[OF assms(2), of 1 "[]"]
    by (simp add: normpath_step_def)
  show "normpath (slashed comps) = slashed comps"
    using join_slashed[OF assms(1)] f1
    by (simp add: normpath_def str_split_slashed(1)[OF ns] Let_def)
       (simp add: comps c startswith_def)
  show "normpath (slashed comps @ ''/'') = slashed comps"
    using join_slashed[OF assms(1)] f2
    by (simp add: normpath_def str_split_slashed(2)[OF ns] Let_def)
       (simp add: comps c startswith_def)
qed

lemma commonprefix_append: "commonprefix cs (cs @ ds) = cs"
  by (induction cs) simp_all

lemma last_slashed:
  "comps \<noteq> [] \<Longrightarrow> \<forall>c \<in> set comps. normal_component c \<Longrightarrow>
   slashed comps \<noteq> [] \<and> last (slashed comps) \<noteq> CHR ''/''"
proof (induction comps rule: rev_induct)
  case Nil
  then show ?case by simp
next
  case (snoc c comps)
  then have "c \<noteq> []" "CHR ''/'' \<notin> set c" by (auto simp: normal_component_def)
  then have "last c \<noteq> CHR ''/''" using last_in_set by metis
  with \<open>c \<noteq> []\<close> show ?case by (simp add: slashed_append)
qed

lemma path_join_normal:
  "a \<noteq> [] \<Longrightarrow> last a \<noteq> CHR ''/'' \<Longrightarrow> \<forall>c \<in> set bs. normal_component c \<Longrightarrow>
   path_join a bs = a @ slashed bs"
proof (induction bs arbitrary: a)
  case Nil
  then show ?case by simp
next
  case (Cons b bs)
  then have b: "b \<noteq> []" "CHR ''/'' \<notin> set b" by (auto simp: normal_component_def)
  then have hb: "hd b \<noteq> CHR ''/''" and lb: "last b \<noteq> CHR ''/''"
    using hd_in_set last_in_set by metis+
  have ns: "\<not> startswith b ''/''"
    using b hb by (cases b) (auto simp: startswith_def)
  have ne: "\<not> endswith a ''/''"
    using Cons.prems(1,2) by (cases a rule: rev_cases) (auto simp: endswith_def)
  have "path_join (a @ ''/'' @ b) bs = (a @ ''/'' @ b) @ slashed bs"
    using Cons.prems b lb by (intro Cons.IH) auto
  with ns ne Cons.prems(1) show ?case by simp
qed

lemma relpath_below:
  assumes "\<forall>c \<in> set (cs @ ds). normal_component c" and "ds \<noteq> []"
  shows "relpath cwd (slashed (cs @ ds)) (slashed cs @ ''/'') = Inr (str_join ''/'' ds)"
proof -
  have ncs: "\<forall>c \<in> set cs. normal_component c" and nds: "\<forall>c \<in> set ds. normal_component c"
    and ne: "cs @ ds \<noteq> []"
    using assms by auto
  obtain d ds' where ds: "ds = d # ds'" using assms(2) by (cases ds) auto
  have d0: "d \<noteq> []" "CHR ''/'' \<notin> set d" "\<forall>c \<in> set ds'. normal_component c"
    using nds ds by (auto simp: normal_component_def)
  then have "last d \<noteq> CHR ''/''" using last_in_set by metis
  with d0 have d: "d \<noteq> []" "last d \<noteq> CHR ''/''" "\<forall>c \<in> set ds'. normal_component c"
    by simp_all
  have sp: "startswith (slashed (cs @ ds)) ''/''"
    using ne by (cases "cs @ ds") (auto simp: startswith_def)
  have ss: "startswith (slashed cs @ ''/'') ''/''"
    by (cases cs) (auto simp: startswith_def)
  have ap: "abspath cwd (slashed (cs @ ds)) = slashed (cs @ ds)"
    using sp normpath_slashed(1)[OF ne assms(1)] by (simp add: abspath_def)
  have pl: "filter (\<lambda>x. x \<noteq> []) (str_split CHR ''/'' (slashed (cs @ ds))) = cs @ ds"
  proof -
    have "\<forall>c \<in> set (cs @ ds). CHR ''/'' \<notin> set c \<and> c \<noteq> []"
      using assms(1) by (auto simp: normal_component_def)
    then show ?thesis
      using str_split_slashed(1)[of "cs @ ds"]
      by (simp add: filter_id_conv)
  qed
  have sl: "filter (\<lambda>x. x \<noteq> []) (str_split CHR ''/'' (abspath cwd (slashed cs @ ''/''))) = cs"
  proof (cases "cs = []")
    case True
    then show ?thesis by (simp add: abspath_def normpath_def startswith_def normpath_step_def)
  next
    case False
    have "\<forall>c \<in> set cs. CHR ''/'' \<notin> set c \<and> c \<noteq> []"
      using ncs by (auto simp: normal_component_def)
    then show ?thesis
      using ss normpath_slashed(2)[OF False ncs] str_split_slashed(1)[of cs]
      by (simp add: abspath_def filter_id_conv)
  qed
  have pne: "slashed (cs @ ds) \<noteq> []" using ne by (cases "cs @ ds") (auto)
  have "path_join d ds' = d @ slashed ds'"
    using d by (intro path_join_normal) auto
  also have "\<dots> = str_join ''/'' ds"
    using join_slashed[of ds] ds by simp
  finally have pj: "path_join d ds' = str_join ''/'' ds" .
  show ?thesis
    unfolding relpath_def Let_def ap sl pl
    using pne pj ds by (simp add: commonprefix_append)
qed

lemma path_split_directory_and_name:
  assumes "h \<noteq> []" and "last h \<noteq> CHR ''/''" and "CHR ''/'' \<notin> set name"
  shows "path_split (h @ CHR ''/'' # name) = (h, name)"
proof -
  have n: "\<And>x. x \<in> set (rev name) \<Longrightarrow> x \<noteq> CHR ''/''"
    using assms(3) by auto
  have t: "takeWhile (\<lambda>c. c \<noteq> CHR ''/'') (rev name @ CHR ''/'' # rev h) = rev name"
    using takeWhile_append2[of "rev name" "\<lambda>c. c \<noteq> CHR ''/''" "CHR ''/'' # rev h", OF n]
    by simp
  have d: "dropWhile (\<lambda>c. c \<noteq> CHR ''/'') (rev name @ CHR ''/'' # rev h) = CHR ''/'' # rev h"
    using dropWhile_append2[of "rev name" "\<lambda>c. c \<noteq> CHR ''/''" "CHR ''/'' # rev h", OF n]
    by simp
  have "last h \<in> set (h @ ''/'')" using assms(1) by simp
  then have nr: "h @ ''/'' \<noteq> replicate (length (h @ ''/'')) CHR ''/''"
    using assms(2) by (metis in_set_replicate)
  obtain x xs where rh: "rev h = x # xs" "x \<noteq> CHR ''/''"
    using assms(1,2) by (cases h rule: rev_cases) auto
  have rs: "rstrip CHR ''/'' (h @ ''/'') = h"
    using rh by (simp add: rstrip_def rev_swap[symmetric])
  show ?thesis
    using nr rs by (simp add: path_split_def t d Let_def)
qed

section \<open>The cache path in the decision stage and in the move stage\<close>

text \<open>
  C10.  For the file \<open>/mnt/user/test.mkv\<close>, directly under the real source
  \<open>/mnt/user/\<close>, \<open>os.path.dirname\<close> returns \<open>/mnt/user\<close> without the final slash,
  so the prefix substitution of \<open>FileFilter._get_cache_paths\<close> finds nothing to replace
  and returns the file's own path as its cache file name, while
  \<open>FileMover._get_paths\<close> returns a path under the cache directory.
\<close>

theorem cache_file_name_differs_at_source_root:
  "snd (get_cache_paths test_filter ''/mnt/user/test.mkv'') = ''/mnt/user/test.mkv''
   \<and> get_paths (demo_mover True False) ''/'' ''/mnt/user/test.mkv''
       = Inr (''/mnt/user'', ''/mnt/cache/.'', ''/mnt/cache/./test.mkv'', ''/mnt/user/test.mkv'')"
  by code_simp

text \<open>
  Below the source root the two stages do agree.  Let the real source be a normalised
  absolute directory written with a final slash, let the cache directory end with a
  slash, and let the file lie in a subdirectory \<open>d\<^sub>1/\<dots>/d\<^sub>k\<close> (\<open>k \<ge> 1\<close>) of
  the real source.  Then both functions compute the cache file name
  \<open>cache_dir + d\<^sub>1/\<dots>/d\<^sub>k + / + name\<close>.
\<close>

lemma cache_file_name_agrees_below_source_root:
  assumes "real_source ff = slashed cs @ ''/''"
    and "real_source mv = real_source ff" and "cache_dir mv = cache_dir ff"
    and "endswith (cache_dir ff) ''/''"
    and "\<forall>c \<in> set (cs @ ds). normal_component c" and "ds \<noteq> []"
    and "CHR ''/'' \<notin> set name"
  shows "\<exists>u cp uf.
           get_paths mv cwd (slashed (cs @ ds) @ CHR ''/'' # name)
             = Inr (u, cp, snd (get_cache_paths ff (slashed (cs @ ds) @ CHR ''/'' # name)), uf)
           \<and> snd (get_cache_paths ff (slashed (cs @ ds) @ CHR ''/'' # name))
             = cache_dir ff @ str_join ''/'' ds @ CHR ''/'' # name"
proof -
  let ?file = "slashed (cs @ ds) @ CHR ''/'' # name"
  have ne: "cs @ ds \<noteq> []" using assms(6) by simp
  from last_slashed[OF ne assms(5)]
  have h: "slashed (cs @ ds) \<noteq> []" "last (slashed (cs @ ds)) \<noteq> CHR ''/''" by simp_all
  from path_split_directory_and_name[OF h assms(7)]
  have dn: "dirname ?file = slashed (cs @ ds)" and bn: "basename ?file = name"
    by (simp_all add: dirname_def basename_def)
  obtain d ds' where ds: "ds = d # ds'" using assms(6) by (cases ds) auto
  have nds: "\<forall>c \<in> set ds. normal_component c" using assms(5) by auto
  have js: "slashed ds = CHR ''/'' # str_join ''/'' ds"
    using join_slashed[OF assms(6)] by simp
  have jn: "str_join ''/'' ds \<noteq> []" "hd (str_join ''/'' ds) \<noteq> CHR ''/''"
    "last (str_join ''/'' ds) \<noteq> CHR ''/''"
  proof -
    have "d \<noteq> []" "CHR ''/'' \<notin> set d" using nds ds by (auto simp: normal_component_def)
    then have "hd d \<noteq> CHR ''/''" using hd_in_set by metis
    moreover have "str_join ''/'' ds = d @ slashed ds'"
      using join_slashed[OF assms(6)] ds by simp
    ultimately show "str_join ''/'' ds \<noteq> []" "hd (str_join ''/'' ds) \<noteq> CHR ''/''"
      using \<open>d \<noteq> []\<close> by simp_all
    from last_slashed[OF assms(6) nds] js
    show "last (str_join ''/'' ds) \<noteq> CHR ''/''"
      using \<open>str_join ''/'' ds \<noteq> []\<close> by simp
  qed
  have sw: "startswith (slashed (cs @ ds)) (slashed cs @ ''/'')"
    by (simp add: slashed_append js startswith_def)
  have rep: "str_replace (slashed (cs @ ds)) (real_source ff) (cache_dir ff) 1
               = cache_dir ff @ str_join ''/'' ds"
    using str_replace_first_prefix[OF sw, of "cache_dir ff"]
    by (simp add: assms(1) slashed_append js)
  have nsw: "\<not> startswith (str_join ''/'' ds) ''/''"
    using jn(1,2) by (cases "str_join ''/'' ds") (auto simp: startswith_def)
  have nsn: "\<not> startswith name ''/''"
    using assms(7) by (cases name) (auto simp: startswith_def)
  have nend: "\<not> endswith (cache_dir ff @ str_join ''/'' ds) ''/''"
    using jn(1,3) by (cases "str_join ''/'' ds" rule: rev_cases) (auto simp: endswith_def)
  have cne: "cache_dir ff @ str_join ''/'' ds \<noteq> []" using jn(1) by simp
  have filt: "snd (get_cache_paths ff ?file) = cache_dir ff @ str_join ''/'' ds @ CHR ''/'' # name"
    using nsn nend cne by (simp add: get_cache_paths_def Let_def dn bn rep)
  have rel: "relpath cwd (dirname ?file) (real_source mv) = Inr (str_join ''/'' ds)"
    using relpath_below[OF assms(5,6)] by (simp add: dn assms(1,2))
  have "\<exists>u cp uf. get_paths mv cwd ?file
          = Inr (u, cp, cache_dir ff @ str_join ''/'' ds @ CHR ''/'' # name, uf)"
    using nsw nsn nend cne assms(4)
    by (simp add: get_paths_def Let_def rel bn assms(3))
  with filt show ?thesis by simp
qed

end
